theory Spec2Isabelle
  imports Main
begin

section \<open>Message ports: values, heap and effects\<close>

text \<open>
  The model of the message port module of the repository (\<^verbatim>\<open>src/unnamed/part_000\<close>):
  \<^verbatim>\<open>MessageChannel\<close>, \<^verbatim>\<open>MessagePort\<close>, \<^verbatim>\<open>serializeJsMessageData\<close>,
  \<^verbatim>\<open>deserializeJsMessageData\<close> and \<^verbatim>\<open>structuredClone\<close>.

  The module is JavaScript: objects have identity and are mutated in place, so the
  model keeps one heap of objects, addressed by position, and every operation takes
  the world and returns the updated one. What an object is (a message port, an
  \<^verbatim>\<open>ArrayBuffer\<close>, anything else) is read from the heap, as the source probes it at
  run time with \<^verbatim>\<open>isArrayBuffer\<close> and \<^verbatim>\<open>ObjectPrototypeIsPrototypeOf\<close>.
  Exceptions are values: a call returns \<open>(Inl error, world)\<close> or \<open>(Inr result, world)\<close>.
  Calls into the transport, the event target and user callbacks are recorded, in
  order, in the world's trace.
\<close>

type_synonym addr = nat
type_synonym bytes = "nat list"

datatype jsval = VUndefined | VNull | VBool bool | VNum int | VStr string | VRef addr

text \<open>
  The fields of a \<^verbatim>\<open>MessagePort\<close>, named by the symbols of the source:
  \<^verbatim>\<open>[_id]\<close>, \<^verbatim>\<open>[_enabled]\<close>, \<^verbatim>\<open>[_refed]\<close>, \<^verbatim>\<open>[MessagePortReceiveMessageOnPortSymbol]\<close>,
  \<^verbatim>\<open>[nodeWorkerThreadCloseCb]\<close> (here: whether it holds a function) and
  \<^verbatim>\<open>[nodeWorkerThreadCloseCbInvoked]\<close>. The last field, \<open>recv_pending\<close>, is not a
  field of the object: it says that the asynchronous receive loop of the port stands
  at its \<^verbatim>\<open>await op_message_port_recv_message(...)\<close>.
\<close>

record MessagePort =
  port_id :: "nat option"
  enabled :: bool
  refed :: bool
  receiveMessageOnPort :: bool
  nodeWorkerThreadCloseCb :: bool
  nodeWorkerThreadCloseCbInvoked :: bool
  recv_pending :: bool

datatype jsobj =
    Plain "(string \<times> jsval) list"
  | ArrayBuffer bytes bool
  | Port MessagePort
  | Function

text \<open>
  \<open>ArrayBuffer bs d\<close>: the contents and whether the buffer was detached;
  \<^verbatim>\<open>ArrayBufferPrototypeGetByteLength\<close> is \<open>length bs\<close>, \<^verbatim>\<open>isDetachedBuffer\<close> is \<open>d\<close>.
\<close>

datatype error =
    DataCloneError string
  | TypeError string
  | OperationError string
  | OpError string

text \<open>
  \<open>DataCloneError\<close> and \<open>OperationError\<close> are the \<^verbatim>\<open>DOMException\<close>s of these names,
  \<open>OpError\<close> is a failure of a transport operation.
\<close>

text \<open>
  Modelled from the spec: the serialized bytes of the opaque codec, as a table of
  objects with references by position (\<open>WIdx\<close> into the table, \<open>WHost\<close> into the host
  objects, \<open>WTransferred\<close> into the transferred buffers).
\<close>

datatype wval =
    WUndefined | WNull | WBool bool | WNum int | WStr string
  | WIdx nat | WHost nat | WTransferred nat

datatype wnode = WObject "(string \<times> wval) list" | WBuffer bytes

record payload =
  root :: wval
  table :: "wnode list"

datatype transferable = MessagePortT nat | ArrayBufferT "bytes option" | OtherT

record MessageData =
  data :: payload
  transferables :: "transferable list"

datatype event = MessageEvent jsval "jsval list" | MessageErrorEvent error

datatype effect =
    OpPost nat MessageData
  | OpRecv nat
  | OpClose nat
  | CloseCb addr
  | Dispatch addr event
  | SuperAddEventListener addr string
  | SuperRemoveEventListener addr string

record world =
  heap :: "jsobj list"
  messageEventListenerCount :: int
  trace :: "effect list"

definition lookup :: "jsobj list \<Rightarrow> addr \<Rightarrow> jsobj option" where
  "lookup h a = (if a < length h then Some (h ! a) else None)"

definition nth_opt :: "'a list \<Rightarrow> nat \<Rightarrow> 'a option" where
  "nth_opt xs i = (if i < length xs then Some (xs ! i) else None)"

text \<open>\<^verbatim>\<open>Array.prototype.push\<close> returns the new length of the array.\<close>

definition ArrayPrototypePush :: "'a list \<Rightarrow> 'a \<Rightarrow> 'a list \<times> nat" where
  "ArrayPrototypePush xs x = (xs @ [x], length xs + 1)"

text \<open>\<^verbatim>\<open>xs[i] = v\<close> on a JavaScript array: past the end it extends the array with holes.\<close>

definition array_set :: "jsval list \<Rightarrow> nat \<Rightarrow> jsval \<Rightarrow> jsval list" where
  "array_set xs i v =
     (if i < length xs then xs[i := v]
      else xs @ replicate (i - length xs) VUndefined @ [v])"

fun show_nat :: "nat \<Rightarrow> string" where
  "show_nat n =
     (if n < 10 then [''0123456789'' ! n]
      else show_nat (n div 10) @ [''0123456789'' ! (n mod 10)])"

section \<open>The value codec\<close>

text \<open>
  Modelled from the spec: the value codec, \<^verbatim>\<open>core.serialize\<close> and \<^verbatim>\<open>core.deserialize\<close>.
  The module imports both from \<^verbatim>\<open>ext:core/mod.js\<close>, which is not among the sources;
  the spec describes them as an opaque pair that handles cyclic values and is told
  which objects travel by reference. Every definition of this section belongs to
  that model: a value is written as a table of the objects it reaches, each object
  once, with references by position in the table, and is rebuilt from the table at
  new addresses.
\<close>

fun refs_of_val :: "jsval \<Rightarrow> addr list" where
  "refs_of_val (VRef a) = [a]"
| "refs_of_val _ = []"

definition succs :: "jsobj list \<Rightarrow> addr \<Rightarrow> addr list" where
  "succs h a =
     (case lookup h a of
        Some (Plain fs) \<Rightarrow> concat (map (\<lambda>kv. refs_of_val (snd kv)) fs)
      | _ \<Rightarrow> [])"

text \<open>
  Modelled from the spec: the traversal of the codec. The objects reachable from the
  worklist, each once, in the order of the first visit; objects passed out of band
  (\<open>leaves\<close>) are not entered.
\<close>

function collect :: "jsobj list \<Rightarrow> addr list \<Rightarrow> addr list \<Rightarrow> addr list \<Rightarrow> addr list" where
  "collect h leaves [] seen = seen"
| "collect h leaves (a # todo) seen =
     (if a \<in> set seen \<or> a \<in> set leaves then collect h leaves todo seen
      else if a < length h then collect h leaves (succs h a @ todo) (seen @ [a])
      else collect h leaves todo (seen @ [a]))"
  by pat_completeness auto
termination
proof (relation "measures [\<lambda>(h, leaves, todo, seen). card ({..<length h} - set seen),
                           \<lambda>(h, leaves, todo, seen). length todo]", goal_cases)
  case 1
  show ?case by simp
next
  case 2
  then show ?case by simp
next
  case (3 h leaves a todo seen)
  then have "a \<in> {..<length h} - set seen" by simp
  then have "{..<length h} - set (seen @ [a]) \<subset> {..<length h} - set seen" by auto
  then have "card ({..<length h} - set (seen @ [a])) < card ({..<length h} - set seen)"
    by (intro psubset_card_mono) simp_all
  then show ?case by simp
next
  case 4
  then show ?case by simp
qed

text \<open>
  Modelled from the spec: how the codec writes a value. A reference is written as
  the position of its object among the transferred buffers, the host objects or the
  objects of the table, in this order.
\<close>

fun index_of :: "addr \<Rightarrow> addr list \<Rightarrow> nat option" where
  "index_of a [] = None"
| "index_of a (x # xs) = (if a = x then Some 0 else map_option Suc (index_of a xs))"

fun enc_val :: "addr list \<Rightarrow> addr list \<Rightarrow> addr list \<Rightarrow> jsval \<Rightarrow> wval option" where
  "enc_val seen hosts trs VUndefined = Some WUndefined"
| "enc_val seen hosts trs VNull = Some WNull"
| "enc_val seen hosts trs (VBool b) = Some (WBool b)"
| "enc_val seen hosts trs (VNum n) = Some (WNum n)"
| "enc_val seen hosts trs (VStr s) = Some (WStr s)"
| "enc_val seen hosts trs (VRef a) =
     (case index_of a trs of
        Some j \<Rightarrow> Some (WTransferred j)
      | None \<Rightarrow>
          (case index_of a hosts of
             Some j \<Rightarrow> Some (WHost j)
           | None \<Rightarrow> map_option WIdx (index_of a seen)))"

fun enc_fields ::
  "addr list \<Rightarrow> addr list \<Rightarrow> addr list \<Rightarrow> (string \<times> jsval) list \<Rightarrow> (string \<times> wval) list option" where
  "enc_fields seen hosts trs [] = Some []"
| "enc_fields seen hosts trs (kv # fs) =
     (case enc_val seen hosts trs (snd kv) of
        None \<Rightarrow> None
      | Some wv \<Rightarrow> map_option ((#) (fst kv, wv)) (enc_fields seen hosts trs fs))"

text \<open>
  Modelled from the spec: what the codec writes for one object. A plain object is
  written field by field, a buffer that is not transferred is copied; a function, a
  message port that is not a host object of the call, a detached buffer and a
  dangling address cannot be cloned.
\<close>

definition enc_node ::
  "jsobj list \<Rightarrow> addr list \<Rightarrow> addr list \<Rightarrow> addr list \<Rightarrow> addr \<Rightarrow> wnode option" where
  "enc_node h seen hosts trs a =
     (case lookup h a of
        Some (Plain fs) \<Rightarrow> map_option WObject (enc_fields seen hosts trs fs)
      | Some (ArrayBuffer bs d) \<Rightarrow> (if d then None else Some (WBuffer bs))
      | _ \<Rightarrow> None)"

fun enc_nodes ::
  "jsobj list \<Rightarrow> addr list \<Rightarrow> addr list \<Rightarrow> addr list \<Rightarrow> addr list \<Rightarrow> wnode list option" where
  "enc_nodes h seen hosts trs [] = Some []"
| "enc_nodes h seen hosts trs (a # as) =
     (case enc_node h seen hosts trs a of
        None \<Rightarrow> None
      | Some n \<Rightarrow> map_option ((#) n) (enc_nodes h seen hosts trs as))"

text \<open>
  Modelled from the spec: the two ways in which the codec fails. A value that
  cannot be cloned is reported, with a description, to the error callback that the
  caller passes (\<open>NotClonable\<close>); by the spec this is the failure that triggers a
  \<^verbatim>\<open>DataCloneError\<close>. Any other failure is an exception that the codec raises
  itself (\<open>Raised\<close>), and the callback has no part in it.
\<close>

datatype codec_error = NotClonable string | Raised error

text \<open>
  Modelled from the spec: the transfer of buffers by the codec. The transferred
  buffers are moved one after the other, \<open>i\<close> counting them: the contents leave
  with the message and the source buffer is left detached, with length zero. A
  buffer that is already detached cannot be moved again. For this the spec says
  that the call fails, and names no clonability error: the codec raises the
  failure itself, as an operation error.
\<close>

fun move_buffers ::
  "jsobj list \<Rightarrow> addr list \<Rightarrow> nat \<Rightarrow> (codec_error + bytes list) \<times> jsobj list" where
  "move_buffers h [] i = (Inr [], h)"
| "move_buffers h (b # bs) i =
     (case lookup h b of
        Some (ArrayBuffer content d) \<Rightarrow>
          (if d
           then (Inl (Raised (OperationError
                   (''ArrayBuffer at index '' @ show_nat i @ '' is already detached''))), h)
           else (case move_buffers (h[b := ArrayBuffer [] True]) bs (i + 1) of
                   (Inl e, h') \<Rightarrow> (Inl e, h')
                 | (Inr ms, h') \<Rightarrow> (Inr (content # ms), h')))
      | _ \<Rightarrow>
          (Inl (Raised (TypeError ''item in transferredArrayBuffers is not transferable'')), h))"

text \<open>
  Modelled from the spec: \<^verbatim>\<open>core.serialize(value, {hostObjects, transferredArrayBuffers})\<close>,
  the opaque codec, whose code is missing. By the spec it serializes a value that may
  be cyclic, is told which objects travel by reference (host objects and transferred
  buffers, keyed by position), moves the transferred buffers instead of copying them
  (the source buffer becomes detached and cannot be transferred again), and, for a
  value that cannot be cloned, fails with a description of the error, which the
  caller's callback raises as a \<^verbatim>\<open>DataCloneError\<close>.
  The second component of a result is the array \<^verbatim>\<open>transferredArrayBuffers\<close> as the
  codec leaves it: at each position the moved contents.
\<close>

definition core_serialize ::
  "jsobj list \<Rightarrow> jsval \<Rightarrow> (addr list \<times> addr list) option
     \<Rightarrow> (codec_error + payload \<times> bytes list) \<times> jsobj list" where
  "core_serialize h v options =
     (let hosts = (case options of None \<Rightarrow> [] | Some ht \<Rightarrow> fst ht);
          trs = (case options of None \<Rightarrow> [] | Some ht \<Rightarrow> snd ht)
      in case move_buffers h trs 0 of
           (Inl e, h') \<Rightarrow> (Inl e, h')
         | (Inr moved, h') \<Rightarrow>
             (let seen = collect h' (hosts @ trs) (refs_of_val v) []
              in case enc_val seen hosts trs v of
                   None \<Rightarrow> (Inl (NotClonable ''Value could not be cloned''), h')
                 | Some r \<Rightarrow>
                     (case enc_nodes h' seen hosts trs seen of
                        None \<Rightarrow> (Inl (NotClonable ''Value could not be cloned''), h')
                      | Some t \<Rightarrow> (Inr (\<lparr>root = r, table = t\<rparr>, moved), h'))))"

text \<open>
  Modelled from the spec: how the codec reads a value back. A position that has no
  object behind it makes the envelope malformed.
\<close>

fun dec_val :: "nat \<Rightarrow> nat \<Rightarrow> addr list \<Rightarrow> addr list \<Rightarrow> wval \<Rightarrow> jsval option" where
  "dec_val off n hosts made WUndefined = Some VUndefined"
| "dec_val off n hosts made WNull = Some VNull"
| "dec_val off n hosts made (WBool b) = Some (VBool b)"
| "dec_val off n hosts made (WNum i) = Some (VNum i)"
| "dec_val off n hosts made (WStr s) = Some (VStr s)"
| "dec_val off n hosts made (WIdx i) = (if i < n then Some (VRef (off + i)) else None)"
| "dec_val off n hosts made (WHost j) = map_option VRef (nth_opt hosts j)"
| "dec_val off n hosts made (WTransferred j) = map_option VRef (nth_opt made j)"

fun dec_fields ::
  "nat \<Rightarrow> nat \<Rightarrow> addr list \<Rightarrow> addr list \<Rightarrow> (string \<times> wval) list \<Rightarrow> (string \<times> jsval) list option" where
  "dec_fields off n hosts made [] = Some []"
| "dec_fields off n hosts made (kw # fs) =
     (case dec_val off n hosts made (snd kw) of
        None \<Rightarrow> None
      | Some v \<Rightarrow> map_option ((#) (fst kw, v)) (dec_fields off n hosts made fs))"

fun dec_node :: "nat \<Rightarrow> nat \<Rightarrow> addr list \<Rightarrow> addr list \<Rightarrow> wnode \<Rightarrow> jsobj option" where
  "dec_node off n hosts made (WObject fs) = map_option Plain (dec_fields off n hosts made fs)"
| "dec_node off n hosts made (WBuffer bs) = Some (ArrayBuffer bs False)"

fun dec_nodes :: "nat \<Rightarrow> nat \<Rightarrow> addr list \<Rightarrow> addr list \<Rightarrow> wnode list \<Rightarrow> jsobj list option" where
  "dec_nodes off n hosts made [] = Some []"
| "dec_nodes off n hosts made (w # ws) =
     (case dec_node off n hosts made w of
        None \<Rightarrow> None
      | Some ob \<Rightarrow> map_option ((#) ob) (dec_nodes off n hosts made ws))"

fun those_bytes :: "bytes option list \<Rightarrow> bytes list option" where
  "those_bytes [] = Some []"
| "those_bytes (None # xs) = None"
| "those_bytes (Some b # xs) = map_option ((#) b) (those_bytes xs)"

text \<open>
  Modelled from the spec: \<^verbatim>\<open>core.deserialize(bytes, {hostObjects, transferredArrayBuffers})\<close>,
  the inverse of the opaque codec, whose code is missing. By the spec it rebuilds
  the value, splices the out-of-band objects in by position, materializes the
  carried buffers, and fails when the payload refers to a position that has no
  descriptor. The result holds the value and the array \<^verbatim>\<open>transferredArrayBuffers\<close>
  as the codec leaves it: at each position the materialized buffer.
\<close>

definition core_deserialize ::
  "jsobj list \<Rightarrow> payload \<Rightarrow> (addr list \<times> bytes option list) option
     \<Rightarrow> (error + jsval \<times> addr list) \<times> jsobj list" where
  "core_deserialize h p options =
     (let hosts = (case options of None \<Rightarrow> [] | Some ht \<Rightarrow> fst ht);
          tabs = (case options of None \<Rightarrow> [] | Some ht \<Rightarrow> snd ht)
      in case those_bytes tabs of
           None \<Rightarrow> (Inl (TypeError ''Malformed envelope''), h)
         | Some bufs \<Rightarrow>
             (let h1 = h @ map (\<lambda>bs. ArrayBuffer bs False) bufs;
                  made = [length h ..< length h + length bufs];
                  off = length h1;
                  n = length (table p)
              in case dec_val off n hosts made (root p) of
                   None \<Rightarrow> (Inl (TypeError ''Malformed envelope''), h)
                 | Some v \<Rightarrow>
                     (case dec_nodes off n hosts made (table p) of
                        None \<Rightarrow> (Inl (TypeError ''Malformed envelope''), h)
                      | Some obs \<Rightarrow> (Inr (v, made), h1 @ obs))))"

section \<open>Serialization of a message and its transfer list\<close>

text \<open>
  \<^verbatim>\<open>createMessagePort(id)\<close> makes a branded object and sets its id; every other field
  is unset, which reads as false.
\<close>

definition new_port :: "nat \<Rightarrow> MessagePort" where
  "new_port i =
     \<lparr>port_id = Some i, enabled = False, refed = False,
      receiveMessageOnPort = False, nodeWorkerThreadCloseCb = False,
      nodeWorkerThreadCloseCbInvoked = False, recv_pending = False\<rparr>"

definition createMessagePort :: "jsobj list \<Rightarrow> nat \<Rightarrow> addr \<times> jsobj list" where
  "createMessagePort h i = (length h, h @ [Port (new_port i)])"

text \<open>
  The first loop of \<^verbatim>\<open>serializeJsMessageData\<close>: the buffers and the ports of the
  transfer list, \<open>j\<close> counting the buffers met so far.
\<close>

fun partition_transferables ::
  "jsobj list \<Rightarrow> addr list \<Rightarrow> nat \<Rightarrow> error + addr list \<times> addr list" where
  "partition_transferables h [] j = Inr ([], [])"
| "partition_transferables h (t # ts) j =
     (case lookup h t of
        Some (ArrayBuffer bs d) \<Rightarrow>
          (if length bs = 0 \<and> d
           then Inl (DataCloneError
                  (''ArrayBuffer at index '' @ show_nat j @ '' is already detached''))
           else (case partition_transferables h ts (j + 1) of
                   Inl e \<Rightarrow> Inl e
                 | Inr (hostObjects, transferredArrayBuffers) \<Rightarrow>
                     Inr (hostObjects, t # transferredArrayBuffers)))
      | Some (Port P) \<Rightarrow>
          (case partition_transferables h ts j of
             Inl e \<Rightarrow> Inl e
           | Inr (hostObjects, transferredArrayBuffers) \<Rightarrow>
               Inr (t # hostObjects, transferredArrayBuffers))
      | _ \<Rightarrow> partition_transferables h ts j)"

text \<open>
  The second loop: a port gives up its id as its descriptor is written, a buffer
  takes the next entry of \<^verbatim>\<open>transferredArrayBuffers\<close>, anything else is refused.
\<close>

fun serialize_transferables ::
  "jsobj list \<Rightarrow> bytes list \<Rightarrow> addr list \<Rightarrow> nat \<Rightarrow> (error + transferable list) \<times> jsobj list" where
  "serialize_transferables h moved [] arrayBufferI = (Inr [], h)"
| "serialize_transferables h moved (t # ts) arrayBufferI =
     (case lookup h t of
        Some (Port P) \<Rightarrow>
          (case port_id P of
             None \<Rightarrow>
               (Inl (DataCloneError ''Can not transfer disentangled message port''), h)
           | Some i \<Rightarrow>
               (case serialize_transferables (h[t := Port (P\<lparr>port_id := None\<rparr>)]) moved ts
                       arrayBufferI of
                  (Inl e, h') \<Rightarrow> (Inl e, h')
                | (Inr ds, h') \<Rightarrow> (Inr (MessagePortT i # ds), h')))
      | Some (ArrayBuffer bs d) \<Rightarrow>
          (case serialize_transferables h moved ts (arrayBufferI + 1) of
             (Inl e, h') \<Rightarrow> (Inl e, h')
           | (Inr ds, h') \<Rightarrow> (Inr (ArrayBufferT (nth_opt moved arrayBufferI) # ds), h'))
      | _ \<Rightarrow> (Inl (DataCloneError ''Value not transferable''), h))"

definition serializeJsMessageData ::
  "world \<Rightarrow> jsval \<Rightarrow> addr list \<Rightarrow> (error + MessageData) \<times> world" where
  "serializeJsMessageData w v ts =
     (case (if ts \<noteq> [] then map_sum id Some (partition_transferables (heap w) ts 0)
            else Inr None) of
        Inl e \<Rightarrow> (Inl e, w)
      | Inr options \<Rightarrow>
          (case core_serialize (heap w) v options of
             (Inl ce, h1) \<Rightarrow>
               (Inl (case ce of NotClonable msg \<Rightarrow> DataCloneError msg | Raised e \<Rightarrow> e),
                w\<lparr>heap := h1\<rparr>)
           | (Inr (serializedData, moved), h1) \<Rightarrow>
               (case serialize_transferables h1 moved ts 0 of
                  (Inl e, h2) \<Rightarrow> (Inl e, w\<lparr>heap := h2\<rparr>)
                | (Inr serializedTransferables, h2) \<Rightarrow>
                    (Inr \<lparr>data = serializedData, transferables = serializedTransferables\<rparr>,
                     w\<lparr>heap := h2\<rparr>))))"

section \<open>Deserialization\<close>

text \<open>
  The loop over the descriptors of a received message, with the arrays it fills:
  \<^verbatim>\<open>transferables\<close>, \<^verbatim>\<open>arrayBufferIdsInTransferables\<close>, \<^verbatim>\<open>transferredArrayBuffers\<close>
  and \<^verbatim>\<open>hostObjects\<close>.
\<close>

fun deserialize_loop ::
  "jsobj list \<Rightarrow> transferable list \<Rightarrow> jsval list \<Rightarrow> nat list \<Rightarrow> bytes option list \<Rightarrow> addr list
     \<Rightarrow> (error + jsval list \<times> nat list \<times> bytes option list \<times> addr list) \<times> jsobj list" where
  "deserialize_loop h [] trs ids tabs hosts = (Inr (trs, ids, tabs, hosts), h)"
| "deserialize_loop h (MessagePortT i # ts) trs ids tabs hosts =
     (let port = fst (createMessagePort h i);
          h' = snd (createMessagePort h i)
      in deserialize_loop h' ts (fst (ArrayPrototypePush trs (VRef port))) ids tabs
           (fst (ArrayPrototypePush hosts port)))"
| "deserialize_loop h (ArrayBufferT d # ts) trs ids tabs hosts =
     (let tabs' = fst (ArrayPrototypePush tabs d);
          trs' = fst (ArrayPrototypePush trs VNull);
          index = snd (ArrayPrototypePush trs VNull)
      in deserialize_loop h ts trs' (fst (ArrayPrototypePush ids index)) tabs' hosts)"
| "deserialize_loop h (OtherT # ts) trs ids tabs hosts = (Inl (TypeError ''Unreachable''), h)"

text \<open>
  The last loop: \<^verbatim>\<open>transferables[id] = transferredArrayBuffers[i]\<close>, for the ids of
  \<^verbatim>\<open>arrayBufferIdsInTransferables\<close> in order.
\<close>

fun splice_buffers :: "jsval list \<Rightarrow> nat list \<Rightarrow> addr list \<Rightarrow> jsval list" where
  "splice_buffers trs [] bufs = trs"
| "splice_buffers trs (i # ids) [] = splice_buffers (array_set trs i VUndefined) ids []"
| "splice_buffers trs (i # ids) (b # bufs) = splice_buffers (array_set trs i (VRef b)) ids bufs"

definition deserializeJsMessageData ::
  "world \<Rightarrow> MessageData \<Rightarrow> (error + jsval \<times> jsval list) \<times> world" where
  "deserializeJsMessageData w md =
     (case (if transferables md \<noteq> []
            then (case deserialize_loop (heap w) (transferables md) [] [] [] [] of
                    (Inl e, h1) \<Rightarrow> (Inl e, h1)
                  | (Inr (trs, ids, tabs, hosts), h1) \<Rightarrow>
                      (Inr (trs, ids, Some (hosts, tabs)), h1))
            else (Inr ([], [], None), heap w)) of
        (Inl e, h1) \<Rightarrow> (Inl e, w\<lparr>heap := h1\<rparr>)
      | (Inr (trs, ids, options), h1) \<Rightarrow>
          (case core_deserialize h1 (data md) options of
             (Inl e, h2) \<Rightarrow> (Inl e, w\<lparr>heap := h2\<rparr>)
           | (Inr (v, bufs), h2) \<Rightarrow> (Inr (v, splice_buffers trs ids bufs), w\<lparr>heap := h2\<rparr>)))"

text \<open>
  \<^verbatim>\<open>structuredClone(value, options)\<close>; \<open>options\<close> is the \<^verbatim>\<open>transfer\<close> member of the
  dictionary, \<open>None\<close> when it is left out (the default is the empty list).
\<close>

definition structuredClone :: "world \<Rightarrow> jsval \<Rightarrow> addr list option \<Rightarrow> (error + jsval) \<times> world" where
  "structuredClone w v options =
     (let transfer = (case options of None \<Rightarrow> [] | Some ts \<Rightarrow> ts)
      in case serializeJsMessageData w v transfer of
           (Inl e, w1) \<Rightarrow> (Inl e, w1)
         | (Inr messageData, w1) \<Rightarrow>
             (case deserializeJsMessageData w1 messageData of
                (Inl e, w2) \<Rightarrow> (Inl e, w2)
              | (Inr r, w2) \<Rightarrow> (Inr (fst r), w2)))"

section \<open>The message port\<close>

definition set_port :: "world \<Rightarrow> addr \<Rightarrow> MessagePort \<Rightarrow> world" where
  "set_port w p P = w\<lparr>heap := (heap w)[p := Port P]\<rparr>"

definition MessageChannel :: "world \<Rightarrow> nat \<times> nat \<Rightarrow> (addr \<times> addr) \<times> world" where
  "MessageChannel w ids =
     (let (port1, h1) = createMessagePort (heap w) (fst ids);
          (port2, h2) = createMessagePort h1 (snd ids)
      in ((port1, port2), w\<lparr>heap := h2\<rparr>))"

text \<open>
  The function held by \<^verbatim>\<open>port[nodeWorkerThreadCloseCb]\<close> is user code: it may call
  the methods of the port, and it may throw. The operations that can invoke it
  take it as their first argument, \<open>cb\<close>; the field of the port says whether the
  port holds a function at all.

  \<^verbatim>\<open>nodeWorkerThreadMaybeInvokeCloseCb\<close> calls the function first, which the trace
  records before the function runs, and sets \<^verbatim>\<open>nodeWorkerThreadCloseCbInvoked\<close> when
  the call has returned, on the port as the callback has left it. When the callback
  throws, the flag is not set and the exception goes on to the caller.
\<close>

type_synonym callback = "world \<Rightarrow> (error + unit) \<times> world"

definition mark_invoked :: "world \<Rightarrow> addr \<Rightarrow> world" where
  "mark_invoked w p =
     (case lookup (heap w) p of
        Some (Port P) \<Rightarrow> set_port w p (P\<lparr>nodeWorkerThreadCloseCbInvoked := True\<rparr>)
      | _ \<Rightarrow> w)"

definition nodeWorkerThreadMaybeInvokeCloseCb ::
  "callback \<Rightarrow> world \<Rightarrow> addr \<Rightarrow> (error + unit) \<times> world" where
  "nodeWorkerThreadMaybeInvokeCloseCb cb w p =
     (case lookup (heap w) p of
        Some (Port P) \<Rightarrow>
          (if nodeWorkerThreadCloseCb P \<and> \<not> nodeWorkerThreadCloseCbInvoked P
           then (case cb (w\<lparr>trace := trace w @ [CloseCb p]\<rparr>) of
                   (Inl e, w1) \<Rightarrow> (Inl e, w1)
                 | (Inr u, w1) \<Rightarrow> (Inr (), mark_invoked w1 p))
           else (Inr (), w))
      | _ \<Rightarrow> (Inr (), w))"

datatype transferOrOptions = Sequence "addr list" | Options "addr list option"

fun transfer_of :: "transferOrOptions \<Rightarrow> addr list" where
  "transfer_of (Sequence ts) = ts"
| "transfer_of (Options None) = []"
| "transfer_of (Options (Some ts)) = ts"

definition get_id :: "jsobj list \<Rightarrow> addr \<Rightarrow> nat option" where
  "get_id h p = (case lookup h p of Some (Port P) \<Rightarrow> port_id P | _ \<Rightarrow> None)"

definition postMessage ::
  "world \<Rightarrow> addr \<Rightarrow> jsval \<Rightarrow> transferOrOptions \<Rightarrow> (error + unit) \<times> world" where
  "postMessage w self message transferOrOptions =
     (case lookup (heap w) self of
        Some (Port P) \<Rightarrow>
          (let transfer = transfer_of transferOrOptions
           in if self \<in> set transfer
              then (Inl (DataCloneError ''Can not transfer self''), w)
              else (case serializeJsMessageData w message transfer of
                      (Inl e, w1) \<Rightarrow> (Inl e, w1)
                    | (Inr d, w1) \<Rightarrow>
                        (case get_id (heap w1) self of
                           None \<Rightarrow> (Inr (), w1)
                         | Some i \<Rightarrow> (Inr (), w1\<lparr>trace := trace w1 @ [OpPost i d]\<rparr>))))
      | _ \<Rightarrow> (Inl (TypeError ''Illegal invocation''), w))"

text \<open>
  The receive loop is an asynchronous function: it runs until its \<^verbatim>\<open>await\<close>, and
  goes on when the transport answers. \<open>loop_head\<close> is the top of \<^verbatim>\<open>while (true)\<close>
  up to the \<^verbatim>\<open>await\<close>; \<open>resume\<close> is the body from the answer of the transport on.
  Listeners are user code: a dispatched event is recorded in the trace.
\<close>

datatype recv_result = RecvData MessageData | RecvNull | RecvInterrupted | RecvFailure string

datatype loop_status = NoLoop | LoopSuspended | LoopDone | LoopReturned | LoopThrew error

definition loop_done :: "world \<Rightarrow> addr \<Rightarrow> world" where
  "loop_done w p =
     (case lookup (heap w) p of
        Some (Port P) \<Rightarrow> set_port w p (P\<lparr>enabled := False\<rparr>)
      | _ \<Rightarrow> w)"

definition loop_head :: "world \<Rightarrow> addr \<Rightarrow> loop_status \<times> world" where
  "loop_head w p =
     (case lookup (heap w) p of
        Some (Port P) \<Rightarrow>
          (case port_id P of
             None \<Rightarrow> (LoopDone, loop_done w p)
           | Some i \<Rightarrow>
               (LoopSuspended,
                set_port (w\<lparr>trace := trace w @ [OpRecv i]\<rparr>) p (P\<lparr>recv_pending := True\<rparr>)))
      | _ \<Rightarrow> (NoLoop, w))"

definition start :: "world \<Rightarrow> addr \<Rightarrow> (error + unit) \<times> world" where
  "start w self =
     (case lookup (heap w) self of
        Some (Port P) \<Rightarrow>
          (if enabled P then (Inr (), w)
           else (Inr (), snd (loop_head (set_port w self (P\<lparr>enabled := True\<rparr>)) self)))
      | _ \<Rightarrow> (Inl (TypeError ''Illegal invocation''), w))"

definition isMessagePort :: "jsobj list \<Rightarrow> jsval \<Rightarrow> bool" where
  "isMessagePort h v =
     (case v of
        VRef a \<Rightarrow> (case lookup h a of Some (Port P) \<Rightarrow> True | _ \<Rightarrow> False)
      | _ \<Rightarrow> False)"

definition resume :: "callback \<Rightarrow> world \<Rightarrow> addr \<Rightarrow> recv_result \<Rightarrow> loop_status \<times> world" where
  "resume cb w p r =
     (case lookup (heap w) p of
        Some (Port P) \<Rightarrow>
          (if \<not> recv_pending P then (NoLoop, w)
           else
             (let w0 = set_port w p (P\<lparr>recv_pending := False\<rparr>)
              in case r of
                   RecvInterrupted \<Rightarrow>
                     (if receiveMessageOnPort P
                      then loop_head
                             (set_port w p
                                (P\<lparr>recv_pending := False, receiveMessageOnPort := False\<rparr>)) p
                      else (LoopDone, loop_done w0 p))
                 | RecvFailure msg \<Rightarrow>
                     (case nodeWorkerThreadMaybeInvokeCloseCb cb w0 p of
                        (Inl e, w1) \<Rightarrow> (LoopThrew e, w1)
                      | (Inr u, w1) \<Rightarrow> (LoopThrew (OpError msg), w1))
                 | RecvNull \<Rightarrow>
                     (case nodeWorkerThreadMaybeInvokeCloseCb cb w0 p of
                        (Inl e, w1) \<Rightarrow> (LoopThrew e, w1)
                      | (Inr u, w1) \<Rightarrow> (LoopDone, loop_done w1 p))
                 | RecvData d \<Rightarrow>
                     (case deserializeJsMessageData w0 d of
                        (Inl err, w1) \<Rightarrow>
                          (LoopReturned,
                           w1\<lparr>trace := trace w1 @ [Dispatch p (MessageErrorEvent err)]\<rparr>)
                      | (Inr (message, trs), w1) \<Rightarrow>
                          loop_head
                            (w1\<lparr>trace := trace w1 @
                                 [Dispatch p
                                    (MessageEvent message
                                       (filter (isMessagePort (heap w1)) trs))]\<rparr>) p)))
      | _ \<Rightarrow> (NoLoop, w))"

definition refMessagePort :: "world \<Rightarrow> addr \<Rightarrow> bool \<Rightarrow> world" where
  "refMessagePort w self ref =
     (case lookup (heap w) self of
        Some (Port P) \<Rightarrow>
          (if ref \<and> \<not> refed P
           then set_port (w\<lparr>messageEventListenerCount := messageEventListenerCount w + 1\<rparr>)
                  self (P\<lparr>refed := True\<rparr>)
           else if \<not> ref \<and> refed P
           then set_port (w\<lparr>messageEventListenerCount := 0\<rparr>) self (P\<lparr>refed := False\<rparr>)
           else w)
      | _ \<Rightarrow> w)"

definition close :: "callback \<Rightarrow> world \<Rightarrow> addr \<Rightarrow> (error + unit) \<times> world" where
  "close cb w self =
     (case lookup (heap w) self of
        Some (Port P) \<Rightarrow>
          (case port_id P of
             Some i \<Rightarrow>
               nodeWorkerThreadMaybeInvokeCloseCb cb
                 (set_port (w\<lparr>trace := trace w @ [OpClose i]\<rparr>) self (P\<lparr>port_id := None\<rparr>))
                 self
           | None \<Rightarrow> (Inr (), w))
      | _ \<Rightarrow> (Inl (TypeError ''Illegal invocation''), w))"

definition removeEventListener :: "world \<Rightarrow> addr \<Rightarrow> string \<Rightarrow> world" where
  "removeEventListener w self type =
     (let w1 = (if type = ''message''
                then w\<lparr>messageEventListenerCount := messageEventListenerCount w - 1\<rparr>
                else w)
      in w1\<lparr>trace := trace w1 @ [SuperRemoveEventListener self type]\<rparr>)"

definition addEventListener :: "world \<Rightarrow> addr \<Rightarrow> string \<Rightarrow> world" where
  "addEventListener w self type =
     (let w1 = (if type = ''message''
                then (let w' = w\<lparr>messageEventListenerCount := messageEventListenerCount w + 1\<rparr>
                      in case lookup (heap w') self of
                           Some (Port P) \<Rightarrow>
                             (if \<not> refed P then set_port w' self (P\<lparr>refed := True\<rparr>) else w')
                         | _ \<Rightarrow> w')
                else w)
      in w1\<lparr>trace := trace w1 @ [SuperAddEventListener self type]\<rparr>)"

text \<open>
  The initialiser handed to \<^verbatim>\<open>defineEventHandler(MessagePort.prototype, "message", ...)\<close>,
  which the event-handler attribute \<^verbatim>\<open>onmessage\<close> runs when a handler is first set.
\<close>

definition message_handler_init :: "world \<Rightarrow> addr \<Rightarrow> (error + unit) \<times> world" where
  "message_handler_init w self = start w self"

section \<open>Predicates of the properties, and example worlds\<close>

definition is_port :: "world \<Rightarrow> addr \<Rightarrow> bool" where
  "is_port w p = (case lookup (heap w) p of Some (Port P) \<Rightarrow> True | _ \<Rightarrow> False)"

definition is_refed :: "world \<Rightarrow> addr \<Rightarrow> bool" where
  "is_refed w p = (case lookup (heap w) p of Some (Port P) \<Rightarrow> refed P | _ \<Rightarrow> False)"

text \<open>A world with the two ports of a channel, at addresses 0 and 1, with ids 10 and 11.\<close>

definition channel_world :: world where
  "channel_world = snd (MessageChannel \<lparr>heap = [], messageEventListenerCount = 0, trace = []\<rparr> (10, 11))"

definition is_enabled :: "world \<Rightarrow> addr \<Rightarrow> bool" where
  "is_enabled w p = (case lookup (heap w) p of Some (Port P) \<Rightarrow> enabled P | _ \<Rightarrow> False)"

definition is_pending :: "world \<Rightarrow> addr \<Rightarrow> bool" where
  "is_pending w p = (case lookup (heap w) p of Some (Port P) \<Rightarrow> recv_pending P | _ \<Rightarrow> False)"

definition empty_world :: world where
  "empty_world = \<lparr>heap = [], messageEventListenerCount = 0, trace = []\<rparr>"

text \<open>The world of the channel with one more object, \<^verbatim>\<open>{a: 1}\<close>, at address 2.\<close>

definition scenario_world :: world where
  "scenario_world = channel_world\<lparr>heap := heap channel_world @ [Plain [(''a'', VNum 1)]]\<rparr>"

text \<open>What \<^verbatim>\<open>{a: 1}\<close> is serialized to, with an empty transfer list.\<close>

definition scenario_envelope :: MessageData where
  "scenario_envelope =
     \<lparr>data = \<lparr>root = WIdx 0, table = [WObject [(''a'', WNum 1)]]\<rparr>, transferables = []\<rparr>"




definition close_cb_calls :: "world \<Rightarrow> addr \<Rightarrow> nat" where
  "close_cb_calls w p = length (filter (\<lambda>e. e = CloseCb p) (trace w))"



text \<open>
  Three callbacks. \<open>quiet_cb\<close> returns and changes nothing. \<open>throwing_cb\<close> throws.
  \<open>closing_cb n p\<close> is \<^verbatim>\<open>() => port.close()\<close> for the port \<open>p\<close>: every invocation
  calls \<^verbatim>\<open>close()\<close>, which may invoke the same callback again; \<open>n\<close> is the depth to
  which the calls are followed, below which the callback is taken to return.
\<close>

definition quiet_cb :: callback where
  "quiet_cb w = (Inr (), w)"

definition throwing_cb :: callback where
  "throwing_cb w = (Inl (TypeError ''thrown by the close callback''), w)"

primrec closing_cb :: "nat \<Rightarrow> addr \<Rightarrow> callback" where
  "closing_cb 0 p = quiet_cb"
| "closing_cb (Suc n) p = (\<lambda>w. close (closing_cb n p) w p)"


text \<open>A worker's port: the first port of the channel, with a close callback registered.\<close>

definition worker_world :: world where
  "worker_world =
     set_port channel_world 0 ((new_port 10)\<lparr>nodeWorkerThreadCloseCb := True\<rparr>)"

text \<open>What the source asks of an object of the transfer list.\<close>

definition isArrayBuffer :: "jsobj list \<Rightarrow> addr \<Rightarrow> bool" where
  "isArrayBuffer h t = (case lookup h t of Some (ArrayBuffer bs d) \<Rightarrow> True | _ \<Rightarrow> False)"

definition isPort :: "jsobj list \<Rightarrow> addr \<Rightarrow> bool" where
  "isPort h t = (case lookup h t of Some (Port P) \<Rightarrow> True | _ \<Rightarrow> False)"

text \<open>
  The codec accepts the value of a call with transfer list \<open>ts\<close>: it is handed the
  ports and the buffers of the list, as \<^verbatim>\<open>serializeJsMessageData\<close> does after its
  first loop.
\<close>

definition codec_accepts :: "jsobj list \<Rightarrow> jsval \<Rightarrow> addr list \<Rightarrow> bool" where
  "codec_accepts h v ts =
     (case fst (core_serialize h v
                  (if ts = [] then None
                   else Some (filter (isPort h) ts, filter (isArrayBuffer h) ts))) of
        Inl msg \<Rightarrow> False
      | Inr r \<Rightarrow> True)"

text \<open>
  A world with two entangled ports (ids 10 and 11), the object \<^verbatim>\<open>{a: 1}\<close>, a buffer of
  three bytes, a detached buffer and a function, at addresses 0 to 5.
\<close>

definition transfer_world :: world where
  "transfer_world =
     \<lparr>heap = [Port (new_port 10), Port (new_port 11), Plain [(''a'', VNum 1)],
              ArrayBuffer [1, 2, 3] False, ArrayBuffer [] True, Function],
      messageEventListenerCount = 0, trace = []\<rparr>"

text \<open>
  A deep copy: \<open>f\<close> maps the objects that the value reaches (the set \<open>S\<close>, closed
  under the references of its objects) one to one to objects of the heap after the
  call that did not exist before it, each the image of its source: the same keys
  in the same order, equal primitive values and contents, and every reference to
  an object \<open>a\<close> turned into a reference to \<open>f a\<close>. Cycles and sharing inside the
  value are kept, and the copy reaches new objects only.
\<close>

fun val_match :: "(addr \<Rightarrow> addr) \<Rightarrow> jsval \<Rightarrow> jsval \<Rightarrow> bool" where
  "val_match f (VRef a) v' = (v' = VRef (f a))"
| "val_match f v v' = (v' = v)"

fun obj_match :: "(addr \<Rightarrow> addr) \<Rightarrow> jsobj \<Rightarrow> jsobj \<Rightarrow> bool" where
  "obj_match f (Plain fs) (Plain gs) =
     list_all2 (\<lambda>kv kv'. fst kv' = fst kv \<and> val_match f (snd kv) (snd kv')) fs gs"
| "obj_match f (ArrayBuffer bs d) (ArrayBuffer bs' d') = (bs' = bs \<and> d' = d)"
| "obj_match f ob ob' = False"

definition deep_copy :: "jsobj list \<Rightarrow> jsval \<Rightarrow> jsobj list \<Rightarrow> jsval \<Rightarrow> bool" where
  "deep_copy h v h' v' =
     (\<exists>f S. set (refs_of_val v) \<subseteq> S \<and> val_match f v v' \<and> inj_on f S \<and>
        (\<forall>a\<in>S. a < length h \<and> set (succs h a) \<subseteq> S \<and> length h \<le> f a \<and> f a < length h'
                \<and> obj_match f (h ! a) (h' ! f a)))"

definition relocate :: "nat \<Rightarrow> addr list \<Rightarrow> addr \<Rightarrow> addr" where
  "relocate off seen a = off + the (index_of a seen)"

text \<open>
  A value is serializable when every object it reaches is a plain object or a
  buffer that is not detached.
\<close>

inductive_set reachable :: "jsobj list \<Rightarrow> addr list \<Rightarrow> addr set" for h :: "jsobj list" and roots :: "addr list" where
  root: "a \<in> set roots \<Longrightarrow> a \<in> reachable h roots"
| step: "a \<in> reachable h roots \<Longrightarrow> b \<in> set (succs h a) \<Longrightarrow> b \<in> reachable h roots"

definition clonable_object :: "jsobj list \<Rightarrow> addr \<Rightarrow> bool" where
  "clonable_object h a =
     (case lookup h a of
        Some (Plain fs) \<Rightarrow> True
      | Some (ArrayBuffer bs d) \<Rightarrow> \<not> d
      | _ \<Rightarrow> False)"

definition serializable :: "jsobj list \<Rightarrow> jsval \<Rightarrow> bool" where
  "serializable h v = (\<forall>a\<in>reachable h (refs_of_val v). clonable_object h a)"

text \<open>
  A cyclic value: object 0 refers to itself and to object 1, which refers back to
  object 0, twice, and to a buffer.
\<close>

definition cyclic_world :: world where
  "cyclic_world =
     \<lparr>heap = [Plain [(''self'', VRef 0), (''next'', VRef 1), (''n'', VNum 1)],
              Plain [(''back'', VRef 0), (''twice'', VRef 0), (''bytes'', VRef 2)],
              ArrayBuffer [7, 8] False],
      messageEventListenerCount = 0, trace = []\<rparr>"

section \<open>Basic facts\<close>

lemma lookup_list_update:
  "lookup (h[p := x]) q = (if q = p \<and> p < length h then Some x else lookup h q)"
  by (simp add: lookup_def)

lemma lookup_Some_length: "lookup h a = Some x \<Longrightarrow> a < length h"
  by (simp add: lookup_def split: if_splits)

lemma heap_set_port: "heap (set_port w p P) = (heap w)[p := Port P]"
  by (simp add: set_port_def)

lemma count_set_port:
  "messageEventListenerCount (set_port w p P) = messageEventListenerCount w"
  by (simp add: set_port_def)

lemma trace_set_port: "trace (set_port w p P) = trace w"
  by (simp add: set_port_def)

lemma channel_world_eq:
  "channel_world =
     \<lparr>heap = [Port (new_port 10), Port (new_port 11)], messageEventListenerCount = 0, trace = []\<rparr>"
  by (simp add: channel_world_def MessageChannel_def createMessagePort_def)

lemmas codec_eval =
  core_serialize_def core_deserialize_def succs_def enc_node_def nth_opt_def lookup_def

lemmas message_eval =
  serializeJsMessageData_def deserializeJsMessageData_def createMessagePort_def
  ArrayPrototypePush_def array_set_def new_port_def

lemmas port_eval =
  postMessage_def get_id_def isMessagePort_def start_def resume_def loop_head_def
  loop_done_def set_port_def nodeWorkerThreadMaybeInvokeCloseCb_def mark_invoked_def close_def
  quiet_cb_def throwing_cb_def
  addEventListener_def is_enabled_def is_pending_def is_refed_def is_port_def

lemmas world_eval =
  channel_world_eq empty_world_def scenario_world_def scenario_envelope_def

lemma deserialize_loop_frame:
  "deserialize_loop h ts trs ids tabs hosts = (r, h') \<Longrightarrow> \<exists>xs. h' = h @ xs"
proof (induction h ts trs ids tabs hosts arbitrary: r h' rule: deserialize_loop.induct)
  case (2 h i ts trs ids tabs hosts)
  from "2.IH"[OF refl refl] "2.prems"
  obtain xs where "h' = (h @ [Port (new_port i)]) @ xs"
    by (auto simp: createMessagePort_def Let_def)
  then show ?case by simp
next
  case (3 h d ts trs ids tabs hosts)
  from "3.IH"[OF refl refl refl] "3.prems" show ?case
    by (auto simp: Let_def)
qed auto

lemma core_deserialize_frame:
  "core_deserialize h p opts = (r, h') \<Longrightarrow> \<exists>xs. h' = h @ xs"
  by (auto simp: core_deserialize_def Let_def split: option.splits)

lemma deserializeJsMessageData_frame:
  assumes "deserializeJsMessageData w md = (r, w')"
  shows "\<exists>xs. w' = w\<lparr>heap := heap w @ xs\<rparr>"
proof (cases "transferables md = []")
  case True
  with assms show ?thesis
    by (auto simp: deserializeJsMessageData_def split: prod.splits sum.splits
        dest!: core_deserialize_frame)
next
  case False
  obtain r1 h1 where l: "deserialize_loop (heap w) (transferables md) [] [] [] [] = (r1, h1)"
    by (cases "deserialize_loop (heap w) (transferables md) [] [] [] []")
  then obtain xs where h1: "h1 = heap w @ xs" by (auto dest: deserialize_loop_frame)
  show ?thesis
  proof (cases r1)
    case (Inl e)
    with assms False l h1 show ?thesis by (auto simp: deserializeJsMessageData_def)
  next
    case (Inr x)
    then obtain trs ids tabs hosts where x: "x = (trs, ids, tabs, hosts)" by (cases x) auto
    obtain r2 h2 where c: "core_deserialize h1 (data md) (Some (hosts, tabs)) = (r2, h2)"
      by (cases "core_deserialize h1 (data md) (Some (hosts, tabs))")
    then obtain ys where "h2 = h1 @ ys" by (auto dest: core_deserialize_frame)
    with assms False l h1 Inr x c show ?thesis
      by (cases r2) (auto simp: deserializeJsMessageData_def)
  qed
qed

lemma lookup_append: "a < length h \<Longrightarrow> lookup (h @ xs) a = lookup h a"
  by (simp add: lookup_def nth_append)

lemmas port_ops =
  close_def start_def resume_def loop_head_def loop_done_def
  nodeWorkerThreadMaybeInvokeCloseCb_def mark_invoked_def

lemmas port_upd =
  heap_set_port trace_set_port lookup_list_update close_cb_calls_def Let_def

lemma maybe_invoke_skip:
  "lookup (heap w) p = Some (Port P) \<Longrightarrow>
     \<not> nodeWorkerThreadCloseCb P \<or> nodeWorkerThreadCloseCbInvoked P \<Longrightarrow>
     nodeWorkerThreadMaybeInvokeCloseCb cb w p = (Inr (), w)"
  by (auto simp: nodeWorkerThreadMaybeInvokeCloseCb_def)









lemma partition_error:
  "partition_transferables h ts j = Inl e \<Longrightarrow> \<exists>msg. e = DataCloneError msg"
proof (induction ts arbitrary: j)
  case Nil
  then show ?case by simp
next
  case (Cons t ts)
  show ?case
  proof (cases "lookup h t")
    case None
    with Cons.prems have "partition_transferables h ts j = Inl e" by simp
    then show ?thesis by (rule Cons.IH)
  next
    case (Some ob)
    show ?thesis
    proof (cases ob)
      case (Plain fs)
      with Some Cons.prems have "partition_transferables h ts j = Inl e" by simp
      then show ?thesis by (rule Cons.IH)
    next
      case (ArrayBuffer bs d)
      show ?thesis
      proof (cases "length bs = 0 \<and> d")
        case True
        with Some ArrayBuffer Cons.prems show ?thesis by auto
      next
        case False
        with Some ArrayBuffer Cons.prems
        have "partition_transferables h ts (j + 1) = Inl e"
          by (auto split: sum.splits)
        then show ?thesis by (rule Cons.IH)
      qed
    next
      case (Port P)
      with Some Cons.prems have "partition_transferables h ts j = Inl e"
        by (auto split: sum.splits)
      then show ?thesis by (rule Cons.IH)
    next
      case Function
      with Some Cons.prems have "partition_transferables h ts j = Inl e" by simp
      then show ?thesis by (rule Cons.IH)
    qed
  qed
qed





lemma trace_serializeJsMessageData:
  "trace (snd (serializeJsMessageData w v ts)) = trace w"
  by (simp add: serializeJsMessageData_def split: sum.splits prod.splits)





lemma get_id_list_update:
  "get_id (h[t := ob]) q =
     (if q = t \<and> t < length h then (case ob of Port P \<Rightarrow> port_id P | _ \<Rightarrow> None) else get_id h q)"
  by (simp add: get_id_def lookup_list_update)

lemma kinds_update_buffer:
  "lookup h b = Some (ArrayBuffer c d) \<Longrightarrow>
     get_id (h[b := ArrayBuffer c' d']) = get_id h
     \<and> isPort (h[b := ArrayBuffer c' d']) = isPort h
     \<and> isArrayBuffer (h[b := ArrayBuffer c' d']) = isArrayBuffer h"
  by (auto simp: fun_eq_iff get_id_def isPort_def isArrayBuffer_def lookup_list_update)

lemma kinds_update_port:
  "lookup h t = Some (Port P) \<Longrightarrow>
     isPort (h[t := Port P']) = isPort h \<and> isArrayBuffer (h[t := Port P']) = isArrayBuffer h"
  by (auto simp: fun_eq_iff isPort_def isArrayBuffer_def lookup_list_update)

lemma move_buffers_kinds:
  "move_buffers h bs i = (r, h') \<Longrightarrow>
     get_id h' = get_id h \<and> isPort h' = isPort h \<and> isArrayBuffer h' = isArrayBuffer h"
proof (induction bs arbitrary: h r h' i)
  case Nil
  then show ?case by simp
next
  case (Cons b bs)
  show ?case
  proof (cases "lookup h b")
    case None
    with Cons.prems show ?thesis by simp
  next
    case (Some ob)
    then have len: "b < length h" by (rule lookup_Some_length)
    show ?thesis
    proof (cases ob)
      case (ArrayBuffer content d)
      show ?thesis
      proof (cases d)
        case True
        with Some ArrayBuffer Cons.prems show ?thesis by simp
      next
        case False
        let ?h = "h[b := ArrayBuffer [] True]"
        obtain r1 h1 where m: "move_buffers ?h bs (i + 1) = (r1, h1)"
          by (cases "move_buffers ?h bs (i + 1)")
        with Some ArrayBuffer False Cons.prems have h': "h' = h1"
          by (cases r1) auto
        from Some ArrayBuffer have k: "get_id ?h = get_id h" "isPort ?h = isPort h"
          "isArrayBuffer ?h = isArrayBuffer h"
          by (simp_all add: kinds_update_buffer)
        from Cons.IH [OF m] k h' show ?thesis by simp
      qed
    qed (use Some Cons.prems in simp_all)
  qed
qed

lemma core_serialize_kinds:
  assumes "core_serialize h v opts = (r, h')"
  shows "get_id h' = get_id h \<and> isPort h' = isPort h \<and> isArrayBuffer h' = isArrayBuffer h"
proof -
  let ?trs = "case opts of None \<Rightarrow> [] | Some ht \<Rightarrow> snd ht"
  obtain r1 h1 where m: "move_buffers h ?trs 0 = (r1, h1)"
    by (cases "move_buffers h ?trs 0")
  with assms have "h' = h1"
    by (cases r1) (auto simp: core_serialize_def Let_def split: option.splits)
  with move_buffers_kinds [OF m] show ?thesis by simp
qed

lemma serialize_transferables_ids:
  "serialize_transferables h moved ts i = (Inr ds, h') \<Longrightarrow>
     get_id h' q = (if q \<in> set ts then None else get_id h q)"
proof (induction ts arbitrary: h i ds)
  case Nil
  then show ?case by simp
next
  case (Cons t ts)
  show ?case
  proof (cases "lookup h t")
    case None
    with Cons.prems show ?thesis by simp
  next
    case (Some ob)
    then have len: "t < length h" by (rule lookup_Some_length)
    show ?thesis
    proof (cases ob)
      case (ArrayBuffer c d)
      with Some Cons.prems obtain ds' where
        "serialize_transferables h moved ts (i + 1) = (Inr ds', h')"
        by (auto split: prod.splits sum.splits)
      from Cons.IH [OF this] Some ArrayBuffer show ?thesis
        by (auto simp: get_id_def)
    next
      case (Port P)
      with Some Cons.prems obtain pid ds' where pid: "port_id P = Some pid" and
        "serialize_transferables (h[t := Port (P\<lparr>port_id := None\<rparr>)]) moved ts i = (Inr ds', h')"
        by (auto split: option.splits prod.splits sum.splits)
      from Cons.IH [OF this(2)] len show ?thesis
        by (auto simp: get_id_list_update)
    qed (use Some Cons.prems in simp_all)
  qed
qed

lemma serialize_transferables_stops:
  assumes "\<not> isPort h x" and "\<not> isArrayBuffer h x"
    and "\<forall>t\<in>set pre. isArrayBuffer h t \<or> get_id h t \<noteq> None"
    and "distinct (filter (isPort h) pre)"
  shows "\<exists>h'. serialize_transferables h moved (pre @ x # post) i
              = (Inl (DataCloneError ''Value not transferable''), h')
            \<and> (\<forall>q. get_id h' q = (if q \<in> set pre then None else get_id h q))"
  using assms
proof (induction pre arbitrary: h i)
  case Nil
  then show ?case
    by (auto simp: isPort_def isArrayBuffer_def split: option.splits jsobj.splits)
next
  case (Cons t pre)
  show ?case
  proof (cases "isArrayBuffer h t")
    case True
    then obtain c d where l: "lookup h t = Some (ArrayBuffer c d)"
      by (auto simp: isArrayBuffer_def split: option.splits jsobj.splits)
    then have np: "\<not> isPort h t" by (simp add: isPort_def)
    with Cons.prems have "\<forall>t\<in>set pre. isArrayBuffer h t \<or> get_id h t \<noteq> None"
      "distinct (filter (isPort h) pre)" by simp_all
    from Cons.IH [OF Cons.prems(1,2) this, of "i + 1"] l show ?thesis
      by (auto simp: get_id_def)
  next
    case False
    with Cons.prems(3) obtain P pid where l: "lookup h t = Some (Port P)"
      and pid: "port_id P = Some pid"
      by (auto simp: get_id_def split: option.splits jsobj.splits)
    then have len: "t < length h" by (auto dest: lookup_Some_length)
    from l have ip: "isPort h t" by (simp add: isPort_def)
    with Cons.prems(4) have nin: "t \<notin> set pre" by simp
    from ip Cons.prems(1) have xt: "x \<noteq> t" by auto
    let ?h = "h[t := Port (P\<lparr>port_id := None\<rparr>)]"
    have k: "isPort ?h = isPort h" "isArrayBuffer ?h = isArrayBuffer h"
      using l by (simp_all add: kinds_update_port)
    have g: "get_id ?h q = (if q = t then None else get_id h q)" for q
      using len by (simp add: get_id_list_update)
    have a: "\<forall>u\<in>set pre. isArrayBuffer ?h u \<or> get_id ?h u \<noteq> None"
      using Cons.prems(3) nin by (auto simp: k g)
    have b: "distinct (filter (isPort ?h) pre)"
      using Cons.prems(4) ip by (simp add: k)
    from Cons.prems(1,2) have c: "\<not> isPort ?h x" "\<not> isArrayBuffer ?h x" by (simp_all add: k)
    from Cons.IH [OF c a b, of i] obtain h' where
      s: "serialize_transferables ?h moved (pre @ x # post) i
            = (Inl (DataCloneError ''Value not transferable''), h')"
      and ids: "\<forall>q. get_id h' q = (if q \<in> set pre then None else get_id ?h q)"
      by blast
    from s l pid have "serialize_transferables h moved ((t # pre) @ x # post) i
            = (Inl (DataCloneError ''Value not transferable''), h')" by simp
    moreover from ids have "\<forall>q. get_id h' q = (if q \<in> set (t # pre) then None else get_id h q)"
      by (auto simp: g)
    ultimately show ?thesis by blast
  qed
qed
lemma partition_ok:
  "\<forall>b\<in>set ts. lookup h b \<noteq> Some (ArrayBuffer [] True) \<Longrightarrow>
     partition_transferables h ts j = Inr (filter (isPort h) ts, filter (isArrayBuffer h) ts)"
proof (induction ts arbitrary: j)
  case Nil
  then show ?case by simp
next
  case (Cons t ts)
  then have ih: "partition_transferables h ts k
      = Inr (filter (isPort h) ts, filter (isArrayBuffer h) ts)" for k by simp
  from Cons.prems have nd: "lookup h t \<noteq> Some (ArrayBuffer [] True)" by simp
  show ?case
  proof (cases "lookup h t")
    case None
    then have "\<not> isPort h t" "\<not> isArrayBuffer h t"
      by (simp_all add: isPort_def isArrayBuffer_def)
    with None ih show ?thesis by simp
  next
    case (Some ob)
    show ?thesis
    proof (cases ob)
      case (Plain fs)
      with Some have "\<not> isPort h t" "\<not> isArrayBuffer h t"
        by (simp_all add: isPort_def isArrayBuffer_def)
      with Some Plain ih show ?thesis by simp
    next
      case (ArrayBuffer c d)
      with Some have k: "\<not> isPort h t" "isArrayBuffer h t"
        by (simp_all add: isPort_def isArrayBuffer_def)
      from nd Some ArrayBuffer have "\<not> (length c = 0 \<and> d)" by auto
      with k Some ArrayBuffer ih show ?thesis by simp
    next
      case (Port P)
      with Some have "isPort h t" "\<not> isArrayBuffer h t"
        by (simp_all add: isPort_def isArrayBuffer_def)
      with Some Port ih show ?thesis by simp
    next
      case Function
      with Some have "\<not> isPort h t" "\<not> isArrayBuffer h t"
        by (simp_all add: isPort_def isArrayBuffer_def)
      with Some Function ih show ?thesis by simp
    qed
  qed
qed

lemma serializeJsMessageData_ids:
  assumes "serializeJsMessageData w v ts = (Inr d, w1)"
  shows "get_id (heap w1) q = (if q \<in> set ts then None else get_id (heap w) q)"
proof -
  let ?opts = "if ts \<noteq> [] then map_sum id Some (partition_transferables (heap w) ts 0)
               else Inr None"
  from assms obtain options where o: "?opts = Inr options"
    by (cases ?opts) (auto simp: serializeJsMessageData_def)
  obtain r h1 where c: "core_serialize (heap w) v options = (r, h1)"
    by (cases "core_serialize (heap w) v options")
  with assms o obtain sd moved where r: "r = Inr (sd, moved)"
    by (cases r) (auto simp: serializeJsMessageData_def)
  obtain r2 h2 where s: "serialize_transferables h1 moved ts 0 = (r2, h2)"
    by (cases "serialize_transferables h1 moved ts 0")
  with assms o c r obtain ds where r2: "r2 = Inr ds" and w1: "w1 = w\<lparr>heap := h2\<rparr>"
    by (cases r2) (auto simp: serializeJsMessageData_def)
  from serialize_transferables_ids [of h1 moved ts 0 ds h2 q] s r2
  have "get_id h2 q = (if q \<in> set ts then None else get_id h1 q)" by simp
  with core_serialize_kinds [OF c] w1 show ?thesis by simp
qed

lemmas transfer_eval = transfer_world_def isPort_def isArrayBuffer_def codec_accepts_def

lemma transfer_examples:
  "fst (serializeJsMessageData transfer_world (VRef 2) [1, 4])
     = Inl (DataCloneError ''ArrayBuffer at index 0 is already detached'')"
  "fst (serializeJsMessageData transfer_world (VRef 2) [3, 3])
     = Inl (OperationError ''ArrayBuffer at index 1 is already detached'')"
  by (simp_all add: codec_eval message_eval transfer_eval)

lemma index_of_Some: "index_of a xs = Some i \<Longrightarrow> i < length xs \<and> xs ! i = a"
  by (induction xs arbitrary: i) (auto split: if_splits)

lemma index_of_mem: "a \<in> set xs \<Longrightarrow> \<exists>i. index_of a xs = Some i"
  by (induction xs) auto

lemma enc_val_dec:
  assumes "enc_val seen [] [] v = Some wv"
  shows "\<exists>v'. dec_val off (length seen) [] [] wv = Some v'
           \<and> val_match (relocate off seen) v v' \<and> set (refs_of_val v) \<subseteq> set seen"
proof (cases v)
  case (VRef a)
  with assms obtain i where i: "index_of a seen = Some i" and wv: "wv = WIdx i" by auto
  from index_of_Some [OF i] have "i < length seen" "a \<in> set seen" by auto
  with VRef i wv show ?thesis by (simp add: relocate_def)
qed (use assms in auto)

lemma enc_fields_dec:
  "enc_fields seen [] [] fs = Some wfs \<Longrightarrow>
     \<exists>gs. dec_fields off (length seen) [] [] wfs = Some gs
        \<and> list_all2 (\<lambda>kv kv'. fst kv' = fst kv
              \<and> val_match (relocate off seen) (snd kv) (snd kv')) fs gs
        \<and> (\<forall>kv\<in>set fs. set (refs_of_val (snd kv)) \<subseteq> set seen)"
proof (induction fs arbitrary: wfs)
  case Nil
  then show ?case by simp
next
  case (Cons kv fs)
  from Cons.prems obtain wv wfs' where wv: "enc_val seen [] [] (snd kv) = Some wv"
    and wfs': "enc_fields seen [] [] fs = Some wfs'" and wfs: "wfs = (fst kv, wv) # wfs'"
    by (auto split: option.splits)
  from enc_val_dec [OF wv, of off] obtain v' where
    v': "dec_val off (length seen) [] [] wv = Some v'"
      "val_match (relocate off seen) (snd kv) v'" "set (refs_of_val (snd kv)) \<subseteq> set seen"
    by blast
  from Cons.IH [OF wfs'] obtain gs where
    gs: "dec_fields off (length seen) [] [] wfs' = Some gs"
      "list_all2 (\<lambda>kv kv'. fst kv' = fst kv
              \<and> val_match (relocate off seen) (snd kv) (snd kv')) fs gs"
      "\<forall>kv\<in>set fs. set (refs_of_val (snd kv)) \<subseteq> set seen"
    by blast
  from v' gs wfs show ?case by simp
qed

lemma enc_node_dec:
  assumes "enc_node h seen [] [] a = Some wn"
  shows "a < length h \<and> (\<exists>ob. dec_node off (length seen) [] [] wn = Some ob
           \<and> obj_match (relocate off seen) (h ! a) ob) \<and> set (succs h a) \<subseteq> set seen"
proof (cases "lookup h a")
  case None
  with assms show ?thesis by (simp add: enc_node_def)
next
  case (Some ob)
  then have len: "a < length h" and ha: "h ! a = ob"
    by (auto simp: lookup_def split: if_splits)
  show ?thesis
  proof (cases ob)
    case (Plain fs)
    with assms Some obtain wfs where wfs: "enc_fields seen [] [] fs = Some wfs"
      and wn: "wn = WObject wfs" by (auto simp: enc_node_def)
    from enc_fields_dec [OF wfs, of off] obtain gs where
      "dec_fields off (length seen) [] [] wfs = Some gs"
      "list_all2 (\<lambda>kv kv'. fst kv' = fst kv
              \<and> val_match (relocate off seen) (snd kv) (snd kv')) fs gs"
      "\<forall>kv\<in>set fs. set (refs_of_val (snd kv)) \<subseteq> set seen"
      by blast
    with len ha Plain Some wn show ?thesis by (auto simp: succs_def)
  next
    case (ArrayBuffer bs d)
    with assms Some len ha show ?thesis
      by (auto simp: enc_node_def succs_def split: if_splits)
  qed (use assms Some in \<open>simp_all add: enc_node_def\<close>)
qed

lemma enc_nodes_dec:
  "enc_nodes h seen [] [] xs = Some t \<Longrightarrow>
     \<exists>obs. dec_nodes off (length seen) [] [] t = Some obs \<and> length obs = length xs
        \<and> (\<forall>i<length xs. xs ! i < length h
               \<and> obj_match (relocate off seen) (h ! (xs ! i)) (obs ! i)
               \<and> set (succs h (xs ! i)) \<subseteq> set seen)"
proof (induction xs arbitrary: t)
  case Nil
  then show ?case by simp
next
  case (Cons a xs)
  from Cons.prems obtain wn t' where wn: "enc_node h seen [] [] a = Some wn"
    and t': "enc_nodes h seen [] [] xs = Some t'" and t: "t = wn # t'"
    by (auto split: option.splits)
  from enc_node_dec [OF wn, of off] obtain ob where
    ob: "a < length h" "dec_node off (length seen) [] [] wn = Some ob"
      "obj_match (relocate off seen) (h ! a) ob" "set (succs h a) \<subseteq> set seen"
    by blast
  from Cons.IH [OF t'] obtain obs where
    obs: "dec_nodes off (length seen) [] [] t' = Some obs" "length obs = length xs"
      "\<forall>i<length xs. xs ! i < length h
               \<and> obj_match (relocate off seen) (h ! (xs ! i)) (obs ! i)
               \<and> set (succs h (xs ! i)) \<subseteq> set seen"
    by blast
  have "\<forall>i<length (a # xs). (a # xs) ! i < length h
               \<and> obj_match (relocate off seen) (h ! ((a # xs) ! i)) ((ob # obs) ! i)
               \<and> set (succs h ((a # xs) ! i)) \<subseteq> set seen"
  proof (intro allI impI)
    fix i assume "i < length (a # xs)"
    with ob obs(3) show "(a # xs) ! i < length h
               \<and> obj_match (relocate off seen) (h ! ((a # xs) ! i)) ((ob # obs) ! i)
               \<and> set (succs h ((a # xs) ! i)) \<subseteq> set seen"
      by (cases i) simp_all
  qed
  with ob(2) obs(1,2) t show ?case by simp
qed

lemma enc_nodes_length: "enc_nodes h seen hosts trs xs = Some t \<Longrightarrow> length t = length xs"
  by (induction xs arbitrary: t) (auto split: option.splits)

lemma relocate_inj: "inj_on (relocate off seen) (set seen)"
proof (rule inj_onI)
  fix a b assume a: "a \<in> set seen" and b: "b \<in> set seen"
    and eq: "relocate off seen a = relocate off seen b"
  from index_of_mem [OF a] obtain i where i: "index_of a seen = Some i" by blast
  from index_of_mem [OF b] obtain j where j: "index_of b seen = Some j" by blast
  from eq i j have "i = j" by (simp add: relocate_def)
  with index_of_Some [OF i] index_of_Some [OF j] show "a = b" by simp
qed

lemma codec_roundtrip:
  assumes "core_serialize h v None = (Inr (p, moved), h1)"
  shows "h1 = h \<and> moved = []
       \<and> (\<exists>v' obs. core_deserialize h p None = (Inr (v', []), h @ obs)
             \<and> deep_copy h v (h @ obs) v')"
proof -
  let ?seen = "collect h [] (refs_of_val v) []"
  let ?f = "relocate (length h) ?seen"
  from assms obtain r t where r: "enc_val ?seen [] [] v = Some r"
    and t: "enc_nodes h ?seen [] [] ?seen = Some t"
    and p: "p = \<lparr>root = r, table = t\<rparr>" and h1: "h1 = h" and moved: "moved = []"
    by (auto simp: core_serialize_def Let_def split: option.splits)
  from enc_nodes_length [OF t] have lt: "length t = length ?seen" .
  from enc_val_dec [OF r, of "length h"] obtain v' where
    v': "dec_val (length h) (length ?seen) [] [] r = Some v'"
      "val_match ?f v v'" "set (refs_of_val v) \<subseteq> set ?seen"
    by blast
  from enc_nodes_dec [OF t, of "length h"] obtain obs where
    obs: "dec_nodes (length h) (length ?seen) [] [] t = Some obs" "length obs = length ?seen"
      "\<forall>i<length ?seen. ?seen ! i < length h
               \<and> obj_match ?f (h ! (?seen ! i)) (obs ! i)
               \<and> set (succs h (?seen ! i)) \<subseteq> set ?seen"
    by blast
  from p lt v'(1) obs(1) have d: "core_deserialize h p None = (Inr (v', []), h @ obs)"
    by (simp add: core_deserialize_def)
  have each: "a < length h \<and> set (succs h a) \<subseteq> set ?seen \<and> length h \<le> ?f a
      \<and> ?f a < length (h @ obs) \<and> obj_match ?f (h ! a) ((h @ obs) ! ?f a)"
    if "a \<in> set ?seen" for a
  proof -
    from index_of_mem [OF that] obtain i where i: "index_of a ?seen = Some i" by blast
    from index_of_Some [OF i] have il: "i < length ?seen" and ia: "?seen ! i = a" by auto
    from i have fa: "?f a = length h + i" by (simp add: relocate_def)
    from obs(3) il ia have "a < length h" "obj_match ?f (h ! a) (obs ! i)"
      "set (succs h a) \<subseteq> set ?seen" by auto
    with fa il obs(2) show ?thesis by (simp add: nth_append)
  qed
  have "deep_copy h v (h @ obs) v'"
    unfolding deep_copy_def
  proof (intro exI [of _ ?f] exI [of _ "set ?seen"] conjI ballI)
    show "set (refs_of_val v) \<subseteq> set ?seen" by (rule v'(3))
    show "val_match ?f v v'" by (rule v'(2))
    show "inj_on ?f (set ?seen)" by (rule relocate_inj)
  qed (use each in auto)
  with h1 moved d show ?thesis by blast
qed

lemma collect_closed:
  "\<forall>a\<in>set seen. set (succs h a) \<subseteq> set seen \<union> set todo \<union> set leaves \<Longrightarrow>
     set seen \<subseteq> set (collect h leaves todo seen)
     \<and> set todo \<subseteq> set (collect h leaves todo seen) \<union> set leaves
     \<and> (\<forall>a\<in>set (collect h leaves todo seen).
           set (succs h a) \<subseteq> set (collect h leaves todo seen) \<union> set leaves)"
proof (induction h leaves todo seen rule: collect.induct)
  case (1 h leaves seen)
  then show ?case by simp
next
  case (2 h leaves a todo seen)
  show ?case
  proof (cases "a \<in> set seen \<or> a \<in> set leaves")
    case True
    from "2.prems" True
    have "\<forall>x\<in>set seen. set (succs h x) \<subseteq> set seen \<union> set todo \<union> set leaves" by auto
    from "2.IH"(1) [OF True this] True show ?thesis by auto
  next
    case False
    show ?thesis
    proof (cases "a < length h")
      case lt: True
      from "2.prems"
      have "\<forall>x\<in>set (seen @ [a]).
              set (succs h x) \<subseteq> set (seen @ [a]) \<union> set (succs h a @ todo) \<union> set leaves"
        by auto
      from "2.IH"(2) [OF False lt this] False lt show ?thesis by auto
    next
      case ge: False
      then have "succs h a = []" by (simp add: succs_def lookup_def)
      with "2.prems"
      have "\<forall>x\<in>set (seen @ [a]). set (succs h x) \<subseteq> set (seen @ [a]) \<union> set todo \<union> set leaves"
        by auto
      from "2.IH"(3) [OF False ge this] False ge show ?thesis by auto
    qed
  qed
qed

lemma collect_reachable:
  "set todo \<subseteq> reachable h roots \<Longrightarrow> set seen \<subseteq> reachable h roots \<Longrightarrow>
     set (collect h leaves todo seen) \<subseteq> reachable h roots"
proof (induction h leaves todo seen rule: collect.induct)
  case (1 h leaves seen)
  then show ?case by simp
next
  case (2 h leaves a todo seen)
  from "2.prems" have a: "a \<in> reachable h roots" and todo: "set todo \<subseteq> reachable h roots"
    by simp_all
  from a have succs: "set (succs h a) \<subseteq> reachable h roots"
    by (auto intro: reachable.step)
  show ?case
  proof (cases "a \<in> set seen \<or> a \<in> set leaves")
    case True
    from "2.IH"(1) [OF True todo "2.prems"(2)] True show ?thesis by simp
  next
    case False
    show ?thesis
    proof (cases "a < length h")
      case lt: True
      from succs todo have t: "set (succs h a @ todo) \<subseteq> reachable h roots" by simp
      from a "2.prems"(2) have s: "set (seen @ [a]) \<subseteq> reachable h roots" by simp
      from "2.IH"(2) [OF False lt t s] False lt show ?thesis by simp
    next
      case ge: False
      from a "2.prems"(2) have s: "set (seen @ [a]) \<subseteq> reachable h roots" by simp
      from "2.IH"(3) [OF False ge todo s] False ge show ?thesis by simp
    qed
  qed
qed

lemma enc_val_ok:
  "set (refs_of_val v) \<subseteq> set seen \<Longrightarrow> \<exists>wv. enc_val seen [] [] v = Some wv"
  by (cases v) (auto dest: index_of_mem)

lemma enc_fields_ok:
  "\<forall>kv\<in>set fs. set (refs_of_val (snd kv)) \<subseteq> set seen \<Longrightarrow>
     \<exists>wfs. enc_fields seen [] [] fs = Some wfs"
proof (induction fs)
  case Nil
  then show ?case by simp
next
  case (Cons kv fs)
  then obtain wv wfs where "enc_val seen [] [] (snd kv) = Some wv"
    "enc_fields seen [] [] fs = Some wfs"
    using enc_val_ok [of "snd kv" seen] by auto
  then show ?case by simp
qed

lemma enc_node_ok:
  assumes "clonable_object h a" and "set (succs h a) \<subseteq> set seen"
  shows "\<exists>wn. enc_node h seen [] [] a = Some wn"
proof (cases "lookup h a")
  case None
  with assms(1) show ?thesis by (simp add: clonable_object_def)
next
  case (Some ob)
  show ?thesis
  proof (cases ob)
    case (Plain fs)
    with Some assms(2) have "\<forall>kv\<in>set fs. set (refs_of_val (snd kv)) \<subseteq> set seen"
      by (auto simp: succs_def)
    from enc_fields_ok [OF this] Some Plain show ?thesis by (auto simp: enc_node_def)
  qed (use Some assms(1) in \<open>auto simp: enc_node_def clonable_object_def\<close>)
qed

lemma enc_nodes_ok:
  "\<forall>a\<in>set xs. clonable_object h a \<and> set (succs h a) \<subseteq> set seen \<Longrightarrow>
     \<exists>t. enc_nodes h seen [] [] xs = Some t"
proof (induction xs)
  case Nil
  then show ?case by simp
next
  case (Cons a xs)
  then obtain wn t where "enc_node h seen [] [] a = Some wn"
    "enc_nodes h seen [] [] xs = Some t"
    using enc_node_ok [of h a seen] by auto
  then show ?case by simp
qed

lemma serializable_accepted:
  assumes "serializable h v"
  shows "\<exists>p. core_serialize h v None = (Inr (p, []), h)"
proof -
  let ?seen = "collect h [] (refs_of_val v) []"
  have cl: "set (refs_of_val v) \<subseteq> set ?seen"
    "\<forall>a\<in>set ?seen. set (succs h a) \<subseteq> set ?seen"
    using collect_closed [of "[]" h "refs_of_val v" "[]"] by auto
  have "set ?seen \<subseteq> reachable h (refs_of_val v)"
    by (rule collect_reachable) (auto intro: reachable.root)
  with assms have "\<forall>a\<in>set ?seen. clonable_object h a" by (auto simp: serializable_def)
  with cl(2) obtain t where t: "enc_nodes h ?seen [] [] ?seen = Some t"
    using enc_nodes_ok [of ?seen h ?seen] by auto
  from enc_val_ok [OF cl(1)] obtain r where "enc_val ?seen [] [] v = Some r" by blast
  with t show ?thesis by (simp add: core_serialize_def)
qed

lemma cyclic_clone:
  "structuredClone cyclic_world (VRef 0) None
    = (Inr (VRef 3),
       \<lparr>heap = [Plain [(''self'', VRef 0), (''next'', VRef 1), (''n'', VNum 1)],
              Plain [(''back'', VRef 0), (''twice'', VRef 0), (''bytes'', VRef 2)],
              ArrayBuffer [7, 8] False,
              Plain [(''self'', VRef 3), (''next'', VRef 4), (''n'', VNum 1)],
              Plain [(''back'', VRef 3), (''twice'', VRef 3), (''bytes'', VRef 5)],
              ArrayBuffer [7, 8] False],
      messageEventListenerCount = 0, trace = []\<rparr>)"
  by (simp add: structuredClone_def cyclic_world_def codec_eval message_eval)

lemma cyclic_reachable: "a \<in> reachable (heap cyclic_world) [0] \<Longrightarrow> a \<in> {0, 1, 2}"
  by (induction rule: reachable.induct)
     (auto simp: cyclic_world_def succs_def lookup_def split: if_splits)

text \<open>
  How the receive loop leaves, for any port whose loop awaits the transport and
  which has no close callback left to invoke: by \<^verbatim>\<open>break\<close> on a clean close and on
  an interrupt that is not resumed, with the enabled flag cleared; by \<^verbatim>\<open>throw\<close> on
  a failure of the transport and by \<^verbatim>\<open>return\<close> on an envelope that does not
  deserialize, with the enabled flag as it was.
\<close>

lemma receive_loop_exits:
  assumes "lookup (heap w) p = Some (Port P)" and "recv_pending P"
    and "\<not> nodeWorkerThreadCloseCb P \<or> nodeWorkerThreadCloseCbInvoked P"
  shows "fst (resume cb w p RecvNull) = LoopDone
           \<and> \<not> is_enabled (snd (resume cb w p RecvNull)) p"
    and "\<not> receiveMessageOnPort P \<Longrightarrow>
           fst (resume cb w p RecvInterrupted) = LoopDone
           \<and> \<not> is_enabled (snd (resume cb w p RecvInterrupted)) p"
    and "fst (resume cb w p (RecvFailure msg)) = LoopThrew (OpError msg)
           \<and> is_enabled (snd (resume cb w p (RecvFailure msg))) p = enabled P"
    and "fst (deserializeJsMessageData (set_port w p (P\<lparr>recv_pending := False\<rparr>)) d) = Inl e \<Longrightarrow>
           fst (resume cb w p (RecvData d)) = LoopReturned
           \<and> is_enabled (snd (resume cb w p (RecvData d))) p = enabled P"
proof -
  from assms(1) have len: "p < length (heap w)" by (rule lookup_Some_length)
  from assms len show "fst (resume cb w p RecvNull) = LoopDone
      \<and> \<not> is_enabled (snd (resume cb w p RecvNull)) p"
    by (auto simp: port_ops port_upd is_enabled_def)
  from assms len show "\<not> receiveMessageOnPort P \<Longrightarrow>
           fst (resume cb w p RecvInterrupted) = LoopDone
           \<and> \<not> is_enabled (snd (resume cb w p RecvInterrupted)) p"
    by (simp add: port_ops port_upd is_enabled_def)
  from assms len show "fst (resume cb w p (RecvFailure msg)) = LoopThrew (OpError msg)
           \<and> is_enabled (snd (resume cb w p (RecvFailure msg))) p = enabled P"
    by (auto simp: port_ops port_upd is_enabled_def)
  let ?w0 = "set_port w p (P\<lparr>recv_pending := False\<rparr>)"
  assume f: "fst (deserializeJsMessageData ?w0 d) = Inl e"
  obtain w1 where d: "deserializeJsMessageData ?w0 d = (Inl e, w1)"
    using f by (cases "deserializeJsMessageData ?w0 d") simp
  then obtain xs where "w1 = ?w0\<lparr>heap := heap ?w0 @ xs\<rparr>"
    by (auto dest: deserializeJsMessageData_frame)
  with assms len d show "fst (resume cb w p (RecvData d)) = LoopReturned
           \<and> is_enabled (snd (resume cb w p (RecvData d))) p = enabled P"
    by (simp add: resume_def is_enabled_def heap_set_port lookup_append lookup_list_update)
qed

text \<open>
  The callback \<^verbatim>\<open>() => port.close()\<close> on the worker's port, invoked by the loop on the
  clean close of the transport: followed to any depth from 2 on, it gives what the
  depth 2 gives, since its second invocation finds the port closed.
\<close>

lemma closing_cb_depth:
  "resume (closing_cb (Suc (Suc n)) 0) (snd (start worker_world 0)) 0 RecvNull
     = resume (closing_cb 2 0) (snd (start worker_world 0)) 0 RecvNull"
  by (simp add: codec_eval message_eval port_eval world_eval worker_world_def numeral_2_eq_2)

section \<open>The claims\<close>

text \<open>
  C3. For every endpoint \<open>p\<close> and every message \<open>x\<close>, \<open>p.postMessage(x, [p])\<close>, and any
  call whose transfer list holds the posting endpoint itself, throws a
  \<^verbatim>\<open>DataCloneError\<close>; the world after the call is the world before it, so the
  transport id of \<open>p\<close> is unchanged and \<open>p\<close> is not invalidated.
\<close>

theorem postMessage_self_transfer:
  assumes "is_port w p" and "p \<in> set (transfer_of t)"
  shows "postMessage w p x t = (Inl (DataCloneError ''Can not transfer self''), w)"
proof -
  from assms(1) obtain P where "lookup (heap w) p = Some (Port P)"
    by (auto simp: is_port_def split: option.splits jsobj.splits)
  with assms(2) show ?thesis by (simp add: postMessage_def)
qed

theorem postMessage_self_transfer_witness:
  "is_port channel_world 0 \<and> 0 \<in> set (transfer_of (Sequence [0])) \<and>
   postMessage channel_world 0 (VNum 5) (Sequence [0])
     = (Inl (DataCloneError ''Can not transfer self''), channel_world) \<and>
   get_id (heap (snd (postMessage channel_world 0 (VNum 5) (Sequence [0])))) 0 = Some 10"
proof -
  have p: "is_port channel_world 0"
    by (simp add: channel_world_eq is_port_def lookup_def)
  have t: "0 \<in> set (transfer_of (Sequence [0]))" by simp
  have "get_id (heap channel_world) 0 = Some 10"
    by (simp add: channel_world_eq get_id_def lookup_def new_port_def)
  with p t postMessage_self_transfer [OF p t, of "VNum 5"] show ?thesis by simp
qed

text \<open>
  C9. The listener counter \<^verbatim>\<open>messageEventListenerCount\<close> is one variable of the
  module, shared by all endpoints. Ref'ing an endpoint that is not ref'd adds one to
  it; unref'ing a ref'd endpoint sets it to zero, whatever it was, and leaves every
  other endpoint ref'd as it was.
\<close>

theorem refMessagePort_shared_counter:
  "(is_port w p \<and> \<not> is_refed w p \<longrightarrow>
      messageEventListenerCount (refMessagePort w p True) = messageEventListenerCount w + 1
      \<and> is_refed (refMessagePort w p True) p)
   \<and> (is_refed w p \<longrightarrow>
      messageEventListenerCount (refMessagePort w p False) = 0
      \<and> \<not> is_refed (refMessagePort w p False) p
      \<and> (\<forall>q. q \<noteq> p \<longrightarrow> is_refed (refMessagePort w p False) q = is_refed w q))"
proof (cases "lookup (heap w) p")
  case None
  then show ?thesis by (simp add: is_port_def is_refed_def)
next
  case (Some ob)
  then have len: "p < length (heap w)" by (rule lookup_Some_length)
  show ?thesis
  proof (cases ob)
    case (Port P)
    with Some len show ?thesis
      by (simp add: is_port_def is_refed_def refMessagePort_def heap_set_port
          count_set_port lookup_list_update)
  qed (use Some in \<open>simp_all add: is_port_def is_refed_def\<close>)
qed

text \<open>
  Both ports of a channel are ref'd, which brings the counter to two; unref'ing the
  first one alone brings it to zero while the second is still ref'd.
\<close>

theorem refMessagePort_shared_counter_witness:
  "is_port channel_world 0 \<and> \<not> is_refed channel_world 0 \<and>
   messageEventListenerCount (refMessagePort channel_world 0 True) = 1 \<and>
   is_refed (refMessagePort (refMessagePort channel_world 0 True) 1 True) 0 \<and>
   messageEventListenerCount (refMessagePort (refMessagePort channel_world 0 True) 1 True) = 2 \<and>
   messageEventListenerCount
     (refMessagePort (refMessagePort (refMessagePort channel_world 0 True) 1 True) 0 False) = 0 \<and>
   is_refed
     (refMessagePort (refMessagePort (refMessagePort channel_world 0 True) 1 True) 0 False) 1"
proof -
  let ?w1 = "refMessagePort channel_world 0 True"
  let ?w2 = "refMessagePort ?w1 1 True"
  have a: "is_port channel_world 0" "\<not> is_refed channel_world 0"
    by (simp_all add: channel_world_eq is_port_def is_refed_def lookup_def new_port_def)
  have c0: "messageEventListenerCount channel_world = 0"
    by (simp add: channel_world_eq)
  have w2: "is_refed ?w2 0" "is_refed ?w2 1" "messageEventListenerCount ?w2 = 2"
    by (simp_all add: channel_world_eq refMessagePort_def is_refed_def lookup_def
        new_port_def set_port_def)
  from refMessagePort_shared_counter [of channel_world 0] a c0
  have "messageEventListenerCount ?w1 = 1" by simp
  moreover from refMessagePort_shared_counter [of ?w2 0] w2
  have "messageEventListenerCount (refMessagePort ?w2 0 False) = 0"
    and "is_refed (refMessagePort ?w2 0 False) 1" by simp_all
  ultimately show ?thesis using a w2 by simp
qed

text \<open>
  C8. The claim: deserialization gives the transferred-objects list one slot per
  descriptor, the new endpoint or the carried buffer at the descriptor's own index.
  The code takes the index of a buffer's slot from the value of
  \<^verbatim>\<open>ArrayPrototypePush(transferables, null)\<close>, which is the new length of the array,
  one more than the index of the slot. A single buffer descriptor comes back as a
  list of two slots, \<^verbatim>\<open>[null, buffer]\<close>; a buffer descriptor followed by a port
  descriptor comes back as \<^verbatim>\<open>[null, buffer]\<close> too, the buffer written over the port,
  and the message event of such an envelope carries no port.
\<close>

theorem deserialize_buffer_slot_off_by_one:
  "fst (deserializeJsMessageData empty_world
      \<lparr>data = \<lparr>root = WUndefined, table = []\<rparr>,
       transferables = [ArrayBufferT (Some [1, 2, 3])]\<rparr>)
     = Inr (VUndefined, [VNull, VRef 0])
   \<and> deserializeJsMessageData empty_world
      \<lparr>data = \<lparr>root = WUndefined, table = []\<rparr>,
       transferables = [ArrayBufferT (Some [1, 2, 3]), MessagePortT 7]\<rparr>
     = (Inr (VUndefined, [VNull, VRef 1]),
        \<lparr>heap = [Port (new_port 7), ArrayBuffer [1, 2, 3] False],
         messageEventListenerCount = 0, trace = []\<rparr>)
   \<and> trace (snd (resume quiet_cb (snd (start channel_world 1)) 1
        (RecvData \<lparr>data = \<lparr>root = WUndefined, table = []\<rparr>,
                   transferables = [ArrayBufferT (Some [1, 2, 3]), MessagePortT 7]\<rparr>)))
     = [OpRecv 11, Dispatch 1 (MessageEvent VUndefined []), OpRecv 11]"
  by (simp add: codec_eval message_eval port_eval world_eval)

text \<open>
  C4. The claim: the enabled flag is false after the receive loop exits, whatever
  the reason. The assignment \<^verbatim>\<open>this[_enabled] = false\<close> stands after the loop, so it
  runs on the exits by \<^verbatim>\<open>break\<close> only. When the transport fails the loop leaves by
  \<^verbatim>\<open>throw err\<close>, and when an envelope does not deserialize it leaves by \<^verbatim>\<open>return\<close>
  after the \<^verbatim>\<open>messageerror\<close> event: the flag stays true on both. On a clean close
  the loop breaks and the flag is cleared.
\<close>

theorem receive_loop_exit_leaves_enabled:
  "fst (resume quiet_cb (snd (start channel_world 1)) 1 (RecvFailure ''BadResource''))
     = LoopThrew (OpError ''BadResource'')
   \<and> is_enabled (snd (resume quiet_cb (snd (start channel_world 1)) 1 (RecvFailure ''BadResource''))) 1
   \<and> fst (resume quiet_cb (snd (start channel_world 1)) 1
         (RecvData \<lparr>data = \<lparr>root = WHost 0, table = []\<rparr>, transferables = []\<rparr>)) = LoopReturned
   \<and> is_enabled (snd (resume quiet_cb (snd (start channel_world 1)) 1
         (RecvData \<lparr>data = \<lparr>root = WHost 0, table = []\<rparr>, transferables = []\<rparr>))) 1
   \<and> trace (snd (resume quiet_cb (snd (start channel_world 1)) 1
         (RecvData \<lparr>data = \<lparr>root = WHost 0, table = []\<rparr>, transferables = []\<rparr>)))
       = [OpRecv 11, Dispatch 1 (MessageErrorEvent (TypeError ''Malformed envelope''))]
   \<and> fst (resume quiet_cb (snd (start channel_world 1)) 1 RecvNull) = LoopDone
   \<and> \<not> is_enabled (snd (resume quiet_cb (snd (start channel_world 1)) 1 RecvNull)) 1"
  by (simp add: codec_eval message_eval port_eval world_eval)

text \<open>
  C5. The claim: registering the first \<^verbatim>\<open>"message"\<close> listener starts the receive
  loop as \<^verbatim>\<open>start()\<close> does, so that in the scenario the listener fires once. On the
  channel, \<^verbatim>\<open>port2.addEventListener("message", onMsg)\<close> marks \<^verbatim>\<open>port2\<close> ref'd but
  leaves it disabled and asks the transport for nothing, where \<^verbatim>\<open>port2.start()\<close>
  enables it and asks for a message; after \<^verbatim>\<open>port1.postMessage({a: 1})\<close> no loop of
  \<^verbatim>\<open>port2\<close> waits for the envelope, and no event is dispatched.
\<close>

theorem addEventListener_does_not_start_counterexample:
  "is_refed (addEventListener scenario_world 1 ''message'') 1
   \<and> \<not> is_enabled (addEventListener scenario_world 1 ''message'') 1
   \<and> is_enabled (snd (start scenario_world 1)) 1
   \<and> trace (addEventListener scenario_world 1 ''message'') = [SuperAddEventListener 1 ''message'']
   \<and> trace (snd (start scenario_world 1)) = [OpRecv 11]
   \<and> trace (snd (postMessage (addEventListener scenario_world 1 ''message'') 0 (VRef 2)
                    (Options None)))
       = [SuperAddEventListener 1 ''message'', OpPost 10 scenario_envelope]
   \<and> fst (resume quiet_cb (snd (postMessage (addEventListener scenario_world 1 ''message'') 0 (VRef 2)
                         (Options None)))
         1 (RecvData scenario_envelope)) = NoLoop
   \<and> trace (snd (resume quiet_cb (snd (postMessage (addEventListener scenario_world 1 ''message'') 0
                                  (VRef 2) (Options None)))
         1 (RecvData scenario_envelope)))
       = [SuperAddEventListener 1 ''message'', OpPost 10 scenario_envelope]"
  by (simp add: codec_eval message_eval port_eval world_eval)

text \<open>
  C5, amended. Registering a \<^verbatim>\<open>"message"\<close> listener with \<^verbatim>\<open>addEventListener\<close> adds
  one to the listener counter and marks the endpoint ref'd, and does not start the
  receive loop: the enabled flag and the pending receive are as before, and the
  call reaches the event target only. The loop is started by \<^verbatim>\<open>start()\<close>, which is
  also all that the initialiser of the \<^verbatim>\<open>onmessage\<close> event handler does: on an
  entangled endpoint that is not enabled it sets the flag and asks the transport
  for a message.
\<close>

theorem addEventListener_message:
  assumes "lookup (heap w) p = Some (Port P)"
  shows "is_refed (addEventListener w p ''message'') p
     \<and> messageEventListenerCount (addEventListener w p ''message'')
         = messageEventListenerCount w + 1
     \<and> is_enabled (addEventListener w p ''message'') p = is_enabled w p
     \<and> is_pending (addEventListener w p ''message'') p = is_pending w p
     \<and> trace (addEventListener w p ''message'') = trace w @ [SuperAddEventListener p ''message'']
     \<and> message_handler_init w p = start w p
     \<and> (\<forall>i. \<not> enabled P \<and> port_id P = Some i \<longrightarrow>
           is_enabled (snd (start w p)) p \<and> is_pending (snd (start w p)) p
           \<and> trace (snd (start w p)) = trace w @ [OpRecv i])"
proof -
  from assms have len: "p < length (heap w)" by (rule lookup_Some_length)
  with assms show ?thesis
    by (auto simp: addEventListener_def is_refed_def is_enabled_def is_pending_def
        heap_set_port count_set_port trace_set_port lookup_list_update Let_def
        message_handler_init_def start_def loop_head_def)
qed

theorem addEventListener_message_witness:
  "lookup (heap scenario_world) 1 = Some (Port (new_port 11))
   \<and> is_refed (addEventListener scenario_world 1 ''message'') 1
   \<and> messageEventListenerCount (addEventListener scenario_world 1 ''message'') = 1
   \<and> \<not> is_enabled (addEventListener scenario_world 1 ''message'') 1
   \<and> is_enabled (snd (message_handler_init scenario_world 1)) 1
   \<and> trace (snd (message_handler_init scenario_world 1)) = [OpRecv 11]"
proof -
  have l: "lookup (heap scenario_world) 1 = Some (Port (new_port 11))"
    by (simp add: world_eval lookup_def)
  have e: "\<not> is_enabled scenario_world 1" "messageEventListenerCount scenario_world = 0"
    "trace scenario_world = []" "\<not> enabled (new_port 11)" "port_id (new_port 11) = Some 11"
    by (simp_all add: world_eval is_enabled_def lookup_def new_port_def)
  from addEventListener_message [OF l] l e show ?thesis by simp
qed

text \<open>
  The scenario once the loop of \<^verbatim>\<open>port2\<close> runs: the envelope posted on \<^verbatim>\<open>port1\<close>,
  delivered to \<^verbatim>\<open>port2\<close>, is dispatched as one message event whose data is a copy of
  \<^verbatim>\<open>{a: 1}\<close> at a new address and whose ports are empty, and the loop waits again.
\<close>

lemma scenario_after_start:
  "resume quiet_cb (snd (postMessage (addEventListener (snd (start scenario_world 1)) 1 ''message'') 0
                  (VRef 2) (Options None)))
         1 (RecvData scenario_envelope)
    = (LoopSuspended,
       \<lparr>heap = [Port (new_port 10),
                Port ((new_port 11)\<lparr>enabled := True, refed := True, recv_pending := True\<rparr>),
                Plain [(''a'', VNum 1)], Plain [(''a'', VNum 1)]],
        messageEventListenerCount = 1,
        trace = [OpRecv 11, SuperAddEventListener 1 ''message'', OpPost 10 scenario_envelope,
                 Dispatch 1 (MessageEvent (VRef 3) []), OpRecv 11]\<rparr>)"
  by (simp add: codec_eval message_eval port_eval world_eval)







text \<open>
  C10. The claim: when an entangled endpoint \<open>p\<close> stands in the transfer list before
  a value that is neither a buffer nor an endpoint, serialization throws
  \<^verbatim>\<open>"Value not transferable"\<close> and \<open>p\<close> has lost its transport id. In the list
  \<^verbatim>\<open>[{a: 1}, port, {a: 1}]\<close> the port is followed by such a value, the call throws
  \<^verbatim>\<open>"Value not transferable"\<close> at the first element, and the port keeps its id; with
  a detached buffer first, the call throws in the first loop, with another message,
  and the port keeps its id as well.
\<close>

theorem serialize_not_atomic_counterexample:
  "serializeJsMessageData transfer_world VNull [2, 1, 2]
     = (Inl (DataCloneError ''Value not transferable''), transfer_world)
   \<and> get_id (heap transfer_world) 1 = Some 11
   \<and> serializeJsMessageData transfer_world VNull [4, 1, 2]
     = (Inl (DataCloneError ''ArrayBuffer at index 0 is already detached''), transfer_world)"
  by (simp add: codec_eval message_eval transfer_eval get_id_def)

text \<open>
  C10, amended. Serialization is not atomic on error: when the first value of the
  transfer list that is neither a buffer nor an endpoint comes after the entangled
  endpoint \<open>p\<close>, every value before it is a buffer or an entangled endpoint, no
  endpoint is listed twice before it, no listed buffer is detached and the codec
  accepts the message, then \<^verbatim>\<open>serializeJsMessageData\<close> throws a \<^verbatim>\<open>DataCloneError\<close>,
  \<^verbatim>\<open>"Value not transferable"\<close>, and afterwards the transport id of \<open>p\<close>, as of every
  endpoint listed before that value, is \<open>None\<close>; the ids of all other endpoints are
  unchanged.
\<close>

theorem serialize_consumes_ports_before_failure:
  assumes "p \<in> set pre" and "get_id (heap w) p \<noteq> None"
    and "\<not> isPort (heap w) x" and "\<not> isArrayBuffer (heap w) x"
    and "\<forall>t\<in>set pre. isArrayBuffer (heap w) t \<or> get_id (heap w) t \<noteq> None"
    and "distinct (filter (isPort (heap w)) pre)"
    and "\<forall>b\<in>set (pre @ x # post). lookup (heap w) b \<noteq> Some (ArrayBuffer [] True)"
    and "codec_accepts (heap w) v (pre @ x # post)"
  shows "\<exists>w'. serializeJsMessageData w v (pre @ x # post)
                = (Inl (DataCloneError ''Value not transferable''), w')
            \<and> get_id (heap w') p = None
            \<and> (\<forall>q. get_id (heap w') q = (if q \<in> set pre then None else get_id (heap w) q))
            \<and> trace w' = trace w"
proof -
  let ?ts = "pre @ x # post"
  let ?h = "heap w"
  let ?o = "Some (filter (isPort ?h) ?ts, filter (isArrayBuffer ?h) ?ts)"
  have part: "partition_transferables ?h ?ts 0
      = Inr (filter (isPort ?h) ?ts, filter (isArrayBuffer ?h) ?ts)"
    using assms(7) by (rule partition_ok)
  obtain r h1 where c: "core_serialize ?h v ?o = (r, h1)"
    by (cases "core_serialize ?h v ?o")
  with assms(8) obtain sd moved where r: "r = Inr (sd, moved)"
    by (cases r) (auto simp: codec_accepts_def)
  note k = core_serialize_kinds [OF c]
  from assms(3-6) k have
    "\<not> isPort h1 x" "\<not> isArrayBuffer h1 x"
    "\<forall>t\<in>set pre. isArrayBuffer h1 t \<or> get_id h1 t \<noteq> None"
    "distinct (filter (isPort h1) pre)" by simp_all
  from serialize_transferables_stops [OF this, of moved post 0] obtain h2 where
    s: "serialize_transferables h1 moved ?ts 0
          = (Inl (DataCloneError ''Value not transferable''), h2)"
    and ids: "\<forall>q. get_id h2 q = (if q \<in> set pre then None else get_id h1 q)"
    by blast
  from part c r s have "serializeJsMessageData w v ?ts
      = (Inl (DataCloneError ''Value not transferable''), w\<lparr>heap := h2\<rparr>)"
    by (simp add: serializeJsMessageData_def)
  moreover from ids k have
    "\<forall>q. get_id (heap (w\<lparr>heap := h2\<rparr>)) q = (if q \<in> set pre then None else get_id ?h q)"
    by simp
  moreover from this assms(1) have "get_id (heap (w\<lparr>heap := h2\<rparr>)) p = None" by simp
  ultimately show ?thesis by auto
qed

text \<open>
  The list \<^verbatim>\<open>[buffer, port2, {a: 1}, port1]\<close>: the call throws, \<^verbatim>\<open>port2\<close> is consumed,
  \<^verbatim>\<open>port1\<close>, listed after the refused value, is not.
\<close>

theorem serialize_consumes_ports_before_failure_witness:
  "\<exists>w'. serializeJsMessageData transfer_world VNull [3, 1, 2, 0]
           = (Inl (DataCloneError ''Value not transferable''), w')
       \<and> get_id (heap transfer_world) 1 = Some 11
       \<and> get_id (heap w') 1 = None
       \<and> get_id (heap w') 0 = Some 10
       \<and> trace w' = []"
proof -
  let ?h = "heap transfer_world"
  have a: "1 \<in> set [3, 1::nat]" "get_id ?h 1 \<noteq> None" "\<not> isPort ?h 2" "\<not> isArrayBuffer ?h 2"
    "\<forall>t\<in>set [3, 1]. isArrayBuffer ?h t \<or> get_id ?h t \<noteq> None"
    "distinct (filter (isPort ?h) [3, 1])"
    "\<forall>b\<in>set ([3, 1] @ 2 # [0]). lookup ?h b \<noteq> Some (ArrayBuffer [] True)"
    by (simp_all add: transfer_eval get_id_def lookup_def new_port_def)
  have c: "codec_accepts ?h VNull ([3, 1] @ 2 # [0])"
    by (simp add: transfer_eval codec_eval)
  have g: "get_id ?h 1 = Some 11" "get_id ?h 0 = Some 10" "trace transfer_world = []"
    by (simp_all add: transfer_eval get_id_def lookup_def new_port_def)
  from serialize_consumes_ports_before_failure [OF a c] g
  show ?thesis by auto
qed

text \<open>
  C1. The claim: every call of \<^verbatim>\<open>postMessage\<close> whose transfer list holds an entangled
  endpoint \<open>p\<close>, other than the posting one, sets the transport id of \<open>p\<close> to \<open>None\<close>;
  when the posting endpoint has no id the call is a silent no-op, and \<open>p\<close> is
  invalidated all the same. With the transfer list \<^verbatim>\<open>[{a: 1}, port2]\<close> the call on
  \<^verbatim>\<open>port1\<close> throws at the first element and \<^verbatim>\<open>port2\<close> keeps its id; on a closed
  \<^verbatim>\<open>port1\<close> the same call throws as well, it is no silent no-op, and \<^verbatim>\<open>port2\<close> keeps
  its id.
\<close>

theorem postMessage_throwing_keeps_port_counterexample:
  "postMessage transfer_world 0 VNull (Sequence [2, 1])
     = (Inl (DataCloneError ''Value not transferable''), transfer_world)
   \<and> get_id (heap transfer_world) 1 = Some 11
   \<and> get_id (heap (snd (close quiet_cb transfer_world 0))) 0 = None
   \<and> fst (postMessage (snd (close quiet_cb transfer_world 0)) 0 VNull (Sequence [2, 1]))
       = Inl (DataCloneError ''Value not transferable'')
   \<and> get_id (heap (snd (postMessage (snd (close quiet_cb transfer_world 0)) 0 VNull (Sequence [2, 1])))) 1
       = Some 11"
  by (simp add: codec_eval message_eval port_eval transfer_eval)

text \<open>
  C1, amended. For every call of \<^verbatim>\<open>postMessage\<close> that returns without throwing and
  whose transfer list holds an entangled endpoint \<open>p\<close>: serialization has succeeded
  and has set the transport id of \<open>p\<close> to \<open>None\<close> in the world it returns, before
  any post; \<open>p\<close> has no id after the call. When the posting endpoint has no id the
  call changes nothing else and leaves the trace as it was; otherwise the one
  effect added after serialization is the post of the envelope on the posting
  endpoint's id.
\<close>

theorem postMessage_invalidates_transferred_ports:
  assumes "postMessage w self message t = (Inr (), w')"
    and "p \<in> set (transfer_of t)" and "get_id (heap w) p \<noteq> None"
  shows "\<exists>d w1. serializeJsMessageData w message (transfer_of t) = (Inr d, w1)
            \<and> get_id (heap w1) p = None
            \<and> get_id (heap w') p = None
            \<and> (get_id (heap w) self = None \<longrightarrow> w' = w1 \<and> trace w' = trace w)
            \<and> (\<forall>i. get_id (heap w) self = Some i \<longrightarrow>
                  w' = w1\<lparr>trace := trace w @ [OpPost i d]\<rparr>)"
proof -
  let ?ts = "transfer_of t"
  from assms(1) obtain P where P: "lookup (heap w) self = Some (Port P)"
    by (auto simp: postMessage_def split: option.splits jsobj.splits)
  with assms(1) have ns: "self \<notin> set ?ts"
    by (auto simp: postMessage_def Let_def split: if_splits)
  obtain r w1 where s: "serializeJsMessageData w message ?ts = (r, w1)"
    by (cases "serializeJsMessageData w message ?ts")
  with assms(1) P ns obtain d where r: "r = Inr d"
    by (cases r) (auto simp: postMessage_def Let_def)
  note ids = serializeJsMessageData_ids [OF s [unfolded r]]
  from ids [of self] ns have self: "get_id (heap w1) self = get_id (heap w) self" by simp
  from ids [of p] assms(2) have p1: "get_id (heap w1) p = None" by simp
  from trace_serializeJsMessageData [of w message ?ts] s have tr: "trace w1 = trace w" by simp
  from assms(1) P ns s r self have
    w': "w' = (case get_id (heap w) self of None \<Rightarrow> w1
               | Some i \<Rightarrow> w1\<lparr>trace := trace w1 @ [OpPost i d]\<rparr>)"
    by (auto simp: postMessage_def Let_def split: option.splits)
  with p1 have "get_id (heap w') p = None" by (auto split: option.splits)
  with s r p1 w' tr show ?thesis by (auto split: option.splits)
qed

text \<open>
  \<^verbatim>\<open>port1.postMessage({a: 1}, [port2, buffer])\<close> on the open and
  \<^verbatim>\<open>port1.postMessage({a: 1}, [port2])\<close> on the closed \<^verbatim>\<open>port1\<close>.
\<close>

theorem postMessage_invalidates_transferred_ports_witness:
  "get_id (heap transfer_world) 1 = Some 11
   \<and> fst (postMessage transfer_world 0 (VRef 2) (Sequence [1, 3])) = Inr ()
   \<and> get_id (heap (snd (postMessage transfer_world 0 (VRef 2) (Sequence [1, 3])))) 1 = None
   \<and> (\<exists>d. trace (snd (postMessage transfer_world 0 (VRef 2) (Sequence [1, 3]))) = [OpPost 10 d])
   \<and> get_id (heap (snd (close quiet_cb transfer_world 0))) 0 = None
   \<and> fst (postMessage (snd (close quiet_cb transfer_world 0)) 0 (VRef 2) (Sequence [1])) = Inr ()
   \<and> get_id (heap (snd (postMessage (snd (close quiet_cb transfer_world 0)) 0 (VRef 2) (Sequence [1])))) 1
       = None
   \<and> trace (snd (postMessage (snd (close quiet_cb transfer_world 0)) 0 (VRef 2) (Sequence [1])))
       = [OpClose 10]"
proof -
  let ?c = "snd (close quiet_cb transfer_world 0)"
  let ?r1 = "postMessage transfer_world 0 (VRef 2) (Sequence [1, 3])"
  let ?r2 = "postMessage ?c 0 (VRef 2) (Sequence [1])"
  have f1: "fst ?r1 = Inr ()"
    by (simp add: codec_eval message_eval port_eval transfer_eval)
  have f2: "fst ?r2 = Inr ()"
    by (simp add: codec_eval message_eval port_eval transfer_eval)
  have g: "get_id (heap transfer_world) 1 = Some 11" "get_id (heap transfer_world) 0 = Some 10"
    "get_id (heap ?c) 1 = Some 11" "get_id (heap ?c) 0 = None"
    "trace transfer_world = []" "trace ?c = [OpClose 10]"
    by (simp_all add: port_eval transfer_eval lookup_def new_port_def)
  have e1: "?r1 = (Inr (), snd ?r1)" using f1 by (cases ?r1) simp
  have e2: "?r2 = (Inr (), snd ?r2)" using f2 by (cases ?r2) simp
  have m: "1 \<in> set (transfer_of (Sequence [1, 3::nat]))" "1 \<in> set (transfer_of (Sequence [1::nat]))"
    "get_id (heap transfer_world) 1 \<noteq> None" "get_id (heap ?c) 1 \<noteq> None"
    using g by simp_all
  from postMessage_invalidates_transferred_ports [OF e1 m(1) m(3)] g
  have "get_id (heap (snd ?r1)) 1 = None" "\<exists>d. trace (snd ?r1) = [OpPost 10 d]"
    by auto
  moreover from postMessage_invalidates_transferred_ports [OF e2 m(2) m(4)] g
  have "get_id (heap (snd ?r2)) 1 = None" "trace (snd ?r2) = [OpClose 10]"
    by auto
  ultimately show ?thesis using f1 f2 g by simp
qed

text \<open>
  C2. With an empty transfer list, every serializable value \<open>v\<close>, cyclic or not, is
  accepted by serialization, which changes nothing; and whenever serialization
  accepts \<open>v\<close>, \<^verbatim>\<open>structuredClone(v)\<close>, that is
  \<^verbatim>\<open>deserializeJsMessageData(serializeJsMessageData(v, []))[0]\<close>, returns a deep copy of
  \<open>v\<close>: structurally equal to it and made of new objects only. The objects that
  existed before the call are unchanged, and the trace is unchanged: no transport
  is involved.
\<close>

theorem structuredClone_deep_copy:
  "(serializable (heap w) v \<longrightarrow> (\<exists>md. serializeJsMessageData w v [] = (Inr md, w)))
   \<and> (\<forall>md w1. serializeJsMessageData w v [] = (Inr md, w1) \<longrightarrow>
        (\<exists>v' w'. deserializeJsMessageData w1 md = (Inr (v', []), w')
           \<and> structuredClone w v None = (Inr v', w')
           \<and> structuredClone w v (Some []) = (Inr v', w')
           \<and> deep_copy (heap w) v (heap w') v'
           \<and> take (length (heap w)) (heap w') = heap w
           \<and> trace w' = trace w
           \<and> messageEventListenerCount w' = messageEventListenerCount w))"
proof (intro conjI impI allI)
  assume "serializable (heap w) v"
  from serializable_accepted [OF this] obtain p where
    "core_serialize (heap w) v None = (Inr (p, []), heap w)" by blast
  then show "\<exists>md. serializeJsMessageData w v [] = (Inr md, w)"
    by (simp add: serializeJsMessageData_def)
next
  fix md w1
  assume s: "serializeJsMessageData w v [] = (Inr md, w1)"
  obtain r h1 where c: "core_serialize (heap w) v None = (r, h1)"
    by (cases "core_serialize (heap w) v None")
  with s obtain p moved where r: "r = Inr (p, moved)"
    by (cases r) (auto simp: serializeJsMessageData_def)
  from codec_roundtrip [OF c [unfolded r]] obtain v' obs where
    h1: "h1 = heap w" and d: "core_deserialize (heap w) p None = (Inr (v', []), heap w @ obs)"
    and dc: "deep_copy (heap w) v (heap w @ obs) v'"
    by blast
  from s c r h1 have md: "md = \<lparr>data = p, transferables = []\<rparr>" and w1: "w1 = w"
    by (simp_all add: serializeJsMessageData_def)
  let ?w' = "w\<lparr>heap := heap w @ obs\<rparr>"
  from md w1 d have des: "deserializeJsMessageData w1 md = (Inr (v', []), ?w')"
    by (simp add: deserializeJsMessageData_def)
  with s w1 have "structuredClone w v None = (Inr v', ?w')"
    "structuredClone w v (Some []) = (Inr v', ?w')"
    by (simp_all add: structuredClone_def)
  with des dc show "\<exists>v' w'. deserializeJsMessageData w1 md = (Inr (v', []), w')
           \<and> structuredClone w v None = (Inr v', w')
           \<and> structuredClone w v (Some []) = (Inr v', w')
           \<and> deep_copy (heap w) v (heap w') v'
           \<and> take (length (heap w)) (heap w') = heap w
           \<and> trace w' = trace w
           \<and> messageEventListenerCount w' = messageEventListenerCount w"
    by simp
qed

text \<open>The cyclic value is serializable, and its clone is the object at address 3.\<close>

theorem structuredClone_deep_copy_witness:
  "serializable (heap cyclic_world) (VRef 0)
   \<and> fst (structuredClone cyclic_world (VRef 0) None) = Inr (VRef 3)
   \<and> deep_copy (heap cyclic_world) (VRef 0)
        (heap (snd (structuredClone cyclic_world (VRef 0) None))) (VRef 3)
   \<and> take 3 (heap (snd (structuredClone cyclic_world (VRef 0) None))) = heap cyclic_world
   \<and> trace (snd (structuredClone cyclic_world (VRef 0) None)) = []"
proof -
  have ser: "serializable (heap cyclic_world) (VRef 0)"
    unfolding serializable_def
  proof
    fix a assume "a \<in> reachable (heap cyclic_world) (refs_of_val (VRef 0))"
    then have "a \<in> {0, 1, 2}" using cyclic_reachable by simp
    then show "clonable_object (heap cyclic_world) a"
      by (auto simp: clonable_object_def cyclic_world_def lookup_def)
  qed
  have c: "fst (structuredClone cyclic_world (VRef 0) None) = Inr (VRef 3)"
    by (simp add: cyclic_clone)
  have l: "length (heap cyclic_world) = 3" "trace cyclic_world = []"
    by (simp_all add: cyclic_world_def)
  from structuredClone_deep_copy [of cyclic_world "VRef 0"] ser
  obtain md where md: "serializeJsMessageData cyclic_world (VRef 0) [] = (Inr md, cyclic_world)"
    by blast
  with structuredClone_deep_copy [of cyclic_world "VRef 0"]
  obtain v' w' where "structuredClone cyclic_world (VRef 0) None = (Inr v', w')"
    "deep_copy (heap cyclic_world) (VRef 0) (heap w') v'"
    "take (length (heap cyclic_world)) (heap w') = heap cyclic_world"
    "trace w' = trace cyclic_world"
    by blast
  with ser c l show ?thesis by simp
qed

end
